theory Spec2Isabelle
  imports Main
begin

section \<open>Python values read from JSON\<close>

text \<open>
  Every value the navigation core reads from a file, from the cache or from the routing
  service comes out of \<^verbatim>\<open>json.load\<close>. Such a value is \<^verbatim>\<open>None\<close>, a boolean, an
  integer, a string, a list or a dictionary keyed by strings (floating point numbers are
  left out). A dictionary is the list of its items in insertion order, its keys distinct.
  Python's \<^verbatim>\<open>None\<close> is \<open>JNull\<close>, also where a function returns "absent".
\<close>

datatype json =
    JNull
  | JBool bool
  | JInt int
  | JStr string
  | JArr "json list"
  | JObj "(string \<times> json) list"

datatype py_error =
    KeyError
  | TypeError
  | AttributeError
  | JSONDecodeError
  | FileNotFoundError
  | Unmodelled

text \<open>\<open>Unmodelled\<close> is no Python exception: it marks the one place where the model stops
  because a route holds something other than integers, which the annotation
  \<^verbatim>\<open>List[int]\<close> excludes.\<close>

text \<open>Truth value of a Python object, as \<^verbatim>\<open>if x:\<close> and \<^verbatim>\<open>not x\<close> test it.\<close>

fun truthy :: "json \<Rightarrow> bool" where
  "truthy JNull = False"
| "truthy (JBool b) = b"
| "truthy (JInt i) = (i \<noteq> 0)"
| "truthy (JStr s) = (s \<noteq> [])"
| "truthy (JArr xs) = (xs \<noteq> [])"
| "truthy (JObj kvs) = (kvs \<noteq> [])"

text \<open>\<^verbatim>\<open>d.get(key, default)\<close>: only a dictionary has the method.\<close>

fun dict_get :: "json \<Rightarrow> string \<Rightarrow> json \<Rightarrow> py_error + json" where
  "dict_get (JObj kvs) k dflt = Inr (case map_of kvs k of None \<Rightarrow> dflt | Some v \<Rightarrow> v)"
| "dict_get _ k dflt = Inl AttributeError"

text \<open>\<^verbatim>\<open>d[key]\<close> with a string key.\<close>

fun subscript :: "json \<Rightarrow> string \<Rightarrow> py_error + json" where
  "subscript (JObj kvs) k = (case map_of kvs k of None \<Rightarrow> Inl KeyError | Some v \<Rightarrow> Inr v)"
| "subscript _ k = Inl TypeError"

text \<open>\<^verbatim>\<open>len(x)\<close>.\<close>

fun py_len :: "json \<Rightarrow> py_error + nat" where
  "py_len (JStr s) = Inr (length s)"
| "py_len (JArr xs) = Inr (length xs)"
| "py_len (JObj kvs) = Inr (length kvs)"
| "py_len _ = Inl TypeError"

text \<open>\<^verbatim>\<open>for x in v\<close>: the elements of a list, the keys of a dictionary, the characters of a
  string; nothing else is iterable.\<close>

fun py_iter :: "json \<Rightarrow> py_error + json list" where
  "py_iter (JArr xs) = Inr xs"
| "py_iter (JObj kvs) = Inr (map (\<lambda>kv. JStr (fst kv)) kvs)"
| "py_iter (JStr s) = Inr (map (\<lambda>c. JStr [c]) s)"
| "py_iter _ = Inl TypeError"

text \<open>Comparison with an integer by \<^verbatim>\<open>==\<close>: a boolean is the integer 0 or 1.\<close>

fun as_number :: "json \<Rightarrow> int option" where
  "as_number (JBool b) = Some (if b then 1 else 0)"
| "as_number (JInt i) = Some i"
| "as_number _ = None"

definition py_eq_int :: "json \<Rightarrow> int \<Rightarrow> bool" where
  "py_eq_int v n = (as_number v = Some n)"

subsection \<open>Strings\<close>

text \<open>\<^verbatim>\<open>str(n)\<close> of an integer, as the f-strings of the source format it.\<close>

definition digit_char :: "nat \<Rightarrow> char" where
  "digit_char d = char_of (48 + d)"

function show_nat :: "nat \<Rightarrow> string" where
  "show_nat n = (if n < 10 then [digit_char n] else show_nat (n div 10) @ [digit_char (n mod 10)])"
  by pat_completeness auto
termination
  by (relation "measure (\<lambda>n. n)") auto

definition show_int :: "int \<Rightarrow> string" where
  "show_int i = (if i < 0 then CHR ''-'' # show_nat (nat (- i)) else show_nat (nat i))"

text \<open>The characters \<^verbatim>\<open>str(n)\<close> is made of.\<close>

definition is_digit :: "char \<Rightarrow> bool" where
  "is_digit c = (48 \<le> (of_char c :: nat) \<and> (of_char c :: nat) \<le> 57)"

definition is_int_char :: "char \<Rightarrow> bool" where
  "is_int_char c = (is_digit c \<or> c = CHR ''-'')"

text \<open>\<^verbatim>\<open>s.lower()\<close>. Strings are byte strings here; the letters A to Z are mapped, every
  other byte is kept.\<close>

definition char_lower :: "char \<Rightarrow> char" where
  "char_lower c = (let n = (of_char c :: nat) in if 65 \<le> n \<and> n \<le> 90 then char_of (n + 32) else c)"

definition str_lower :: "string \<Rightarrow> string" where
  "str_lower s = map char_lower s"

text \<open>\<^verbatim>\<open>a in b\<close> on strings: \<open>a\<close> occurs in \<open>b\<close> as a contiguous run.\<close>

fun starts_with :: "string \<Rightarrow> string \<Rightarrow> bool" where
  "starts_with [] s = True"
| "starts_with (a # as) [] = False"
| "starts_with (a # as) (b # bs) = (a = b \<and> starts_with as bs)"

fun str_in :: "string \<Rightarrow> string \<Rightarrow> bool" where
  "str_in a [] = (a = [])"
| "str_in a (b # bs) = (starts_with a (b # bs) \<or> str_in a bs)"

section \<open>The world outside the program\<close>

text \<open>
  A file holds a JSON value, or cannot be read or parsed. Opening a cache file for
  writing can succeed, fail before the file is touched, or fail after the file was
  truncated. What the environment answers at its \<open>n\<close>-th interaction is given by the
  oracle fields of the world; \<open>clock\<close> counts the interactions so far. The trace records
  what an instrumented run observes: log lines, calls of the map-file loader, requests
  to the routing service, position polls and walk commands.
\<close>

datatype content = Parsed json | Unreadable

datatype write_outcome = Persisted | OpenFails | DumpFails

datatype http_result = ConnectionFails | Response int "json option"

datatype poll_result =
    PollRaises
  | PollMapOnly int
  | PollMapX int int
  | PollFull int int int

datatype log_msg =
    LogNpcsLoaded nat
  | LogMonstersLoaded nat
  | LogMapsInfoLoaded nat
  | LogLoadError py_error
  | LogCacheSaveError
  | LogMapReadError int
  | LogNpcCacheHit int json
  | LogNpcSearch int
  | LogNpcFound int json
  | LogNpcNotFound int
  | LogRouteCacheHit "int option" int
  | LogRouteRequest "int option" int
  | LogRouteCached
  | LogHttp403
  | LogHttpError int
  | LogRouteError
  | LogPositionError
  | LogAlreadyThere json
  | LogNoRoute json
  | LogRoute "json list"
  | LogDesync int "int option"
  | LogPortalMissing json json
  | LogPortal json json json
  | LogWalk json json
  | LogWalkError
  | LogArrived json
  | LogWrongMap "int option" int

datatype event =
    Print log_msg
  | LoadMapFile int
  | HttpGet "int option" int
  | PollPosition
  | WalkCommand json json

record world =
  files :: "string \<Rightarrow> content option"
  clock :: nat
  trace :: "event list"
  write_oracle :: "nat \<Rightarrow> string \<Rightarrow> write_outcome"
  http_oracle :: "nat \<Rightarrow> int option \<Rightarrow> int \<Rightarrow> http_result"
  poll_oracle :: "nat \<Rightarrow> poll_result"
  walk_oracle :: "nat \<Rightarrow> bool"

definition emit :: "event \<Rightarrow> world \<Rightarrow> world" where
  "emit e w = w\<lparr>trace := trace w @ [e]\<rparr>"

definition tick :: "world \<Rightarrow> world" where
  "tick w = w\<lparr>clock := Suc (clock w)\<rparr>"

subsection \<open>Configuration constants\<close>

definition DATA_PATH :: string where
  "DATA_PATH = ''data''"

definition MAPS_FOLDER :: string where
  "MAPS_FOLDER = DATA_PATH @ ''/maps''"

definition CACHE_FOLDER :: string where
  "CACHE_FOLDER = DATA_PATH @ ''/cache''"

definition NPCS_JSON :: string where
  "NPCS_JSON = DATA_PATH @ ''/monsters.json''"

definition MONSTERS_JSON :: string where
  "MONSTERS_JSON = DATA_PATH @ ''/monsters.json''"

definition MAPS_JSON :: string where
  "MAPS_JSON = DATA_PATH @ ''/maps.json''"

section \<open>CacheManager\<close>

text \<open>
  One file per key in one folder per cache type. This first part is what the methods do
  to the files once the folder of the type is there: \<open>get_cache_file\<close> is the path of the
  file, \<open>cache_get\<close>, \<open>cache_set\<close> and \<open>cache_exists\<close> read and write it. The program
  itself uses the two types \<^verbatim>\<open>npc_locations\<close> and \<^verbatim>\<open>pathfinding\<close> and writes records of
  JSON shape, and is modelled with these. The methods as the class has them, with the
  \<^verbatim>\<open>mkdir\<close> of the type folder and with any Python value, follow in the second part.
\<close>

definition get_cache_file :: "string \<Rightarrow> string \<Rightarrow> string" where
  "get_cache_file cache_type key = CACHE_FOLDER @ ''/'' @ cache_type @ ''/'' @ key @ ''.json''"

definition cache_get :: "world \<Rightarrow> string \<Rightarrow> string \<Rightarrow> json" where
  "cache_get w cache_type key =
     (case files w (get_cache_file cache_type key) of
        None \<Rightarrow> JNull
      | Some Unreadable \<Rightarrow> JNull
      | Some (Parsed v) \<Rightarrow> v)"

definition cache_set :: "world \<Rightarrow> string \<Rightarrow> string \<Rightarrow> json \<Rightarrow> world" where
  "cache_set w cache_type key v =
     (let cache_file = get_cache_file cache_type key in
      case write_oracle w (clock w) cache_file of
        Persisted \<Rightarrow> tick (w\<lparr>files := (files w)(cache_file \<mapsto> Parsed v)\<rparr>)
      | OpenFails \<Rightarrow> emit (Print LogCacheSaveError) (tick w)
      | DumpFails \<Rightarrow>
          emit (Print LogCacheSaveError) (tick (w\<lparr>files := (files w)(cache_file \<mapsto> Unreadable)\<rparr>)))"

definition cache_exists :: "world \<Rightarrow> string \<Rightarrow> string \<Rightarrow> bool" where
  "cache_exists w cache_type key = (files w (get_cache_file cache_type key) \<noteq> None)"

subsection \<open>The methods of the class, with folders and with any Python value\<close>

text \<open>
  A value handed to \<^verbatim>\<open>set\<close> is any Python value: besides what \<^verbatim>\<open>json.load\<close> returns also
  a tuple, or a dictionary with keys that are not strings. A dictionary is the list of
  its items in their order. Numbers are integers, as they are for the loaded values.
  \<open>py_of_json\<close> reads a loaded value as such a value.
\<close>

datatype pyval =
    PNone
  | PBool bool
  | PInt int
  | PStr string
  | PList "pyval list"
  | PTuple "pyval list"
  | PDict "(pyval \<times> pyval) list"

fun py_of_json :: "json \<Rightarrow> pyval"
  and py_of_list :: "json list \<Rightarrow> pyval list"
  and py_of_items :: "(string \<times> json) list \<Rightarrow> (pyval \<times> pyval) list" where
  "py_of_json JNull = PNone"
| "py_of_json (JBool b) = PBool b"
| "py_of_json (JInt i) = PInt i"
| "py_of_json (JStr s) = PStr s"
| "py_of_json (JArr xs) = PList (py_of_list xs)"
| "py_of_json (JObj kvs) = PDict (py_of_items kvs)"
| "py_of_list [] = []"
| "py_of_list (x # xs) = py_of_json x # py_of_list xs"
| "py_of_items [] = []"
| "py_of_items ((k, v) # kvs) = (PStr k, py_of_json v) # py_of_items kvs"

text \<open>
  What \<^verbatim>\<open>json.load\<close> returns from what \<^verbatim>\<open>json.dump\<close> wrote. \<^verbatim>\<open>json.dump\<close> writes a tuple as
  a list and turns a dictionary key that is an integer, a boolean or \<^verbatim>\<open>None\<close> into a
  string; any other key that is not a string raises \<^verbatim>\<open>TypeError\<close>. \<^verbatim>\<open>json.load\<close> keeps
  the last value of a name that is written twice, at the place of the first.
\<close>

fun key_name :: "pyval \<Rightarrow> py_error + string" where
  "key_name (PStr s) = Inr s"
| "key_name (PInt i) = Inr (show_int i)"
| "key_name (PBool b) = Inr (if b then ''true'' else ''false'')"
| "key_name PNone = Inr ''null''"
| "key_name _ = Inl TypeError"

fun object_store :: "(string \<times> json) list \<Rightarrow> string \<Rightarrow> json \<Rightarrow> (string \<times> json) list" where
  "object_store [] k v = [(k, v)]"
| "object_store ((k', v') # rest) k v =
     (if k' = k then (k', v) # rest else (k', v') # object_store rest k v)"

definition load_object :: "(string \<times> json) list \<Rightarrow> (string \<times> json) list" where
  "load_object items = foldl (\<lambda>acc kv. object_store acc (fst kv) (snd kv)) [] items"

fun stored_value :: "pyval \<Rightarrow> py_error + json"
  and stored_list :: "pyval list \<Rightarrow> py_error + json list"
  and stored_items :: "(pyval \<times> pyval) list \<Rightarrow> py_error + (string \<times> json) list" where
  "stored_value PNone = Inr JNull"
| "stored_value (PBool b) = Inr (JBool b)"
| "stored_value (PInt i) = Inr (JInt i)"
| "stored_value (PStr s) = Inr (JStr s)"
| "stored_value (PList xs) = (case stored_list xs of Inl e \<Rightarrow> Inl e | Inr js \<Rightarrow> Inr (JArr js))"
| "stored_value (PTuple xs) = (case stored_list xs of Inl e \<Rightarrow> Inl e | Inr js \<Rightarrow> Inr (JArr js))"
| "stored_value (PDict kvs) =
     (case stored_items kvs of Inl e \<Rightarrow> Inl e | Inr items \<Rightarrow> Inr (JObj (load_object items)))"
| "stored_list [] = Inr []"
| "stored_list (x # xs) =
     (case stored_value x of
        Inl e \<Rightarrow> Inl e
      | Inr j \<Rightarrow> (case stored_list xs of Inl e \<Rightarrow> Inl e | Inr js \<Rightarrow> Inr (j # js)))"
| "stored_items [] = Inr []"
| "stored_items ((k, v) # kvs) =
     (case key_name k of
        Inl e \<Rightarrow> Inl e
      | Inr n \<Rightarrow>
          (case stored_value v of
             Inl e \<Rightarrow> Inl e
           | Inr j \<Rightarrow>
               (case stored_items kvs of Inl e \<Rightarrow> Inl e | Inr items \<Rightarrow> Inr ((n, j) # items))))"

text \<open>
  The folder of a cache type is made by \<^verbatim>\<open>mkdir(exist_ok=True)\<close>, without \<^verbatim>\<open>parents\<close>:
  the call does nothing when the folder is there, makes it when its parent is there, and
  raises \<^verbatim>\<open>FileNotFoundError\<close> when the parent is missing. The state holds the folders
  that exist, by their paths; the cache folder itself is there, made by \<^verbatim>\<open>__init__\<close>.
  This is the behaviour for a cache type that \<^verbatim>\<open>pathlib\<close> leaves as it is written, a
  relative path of names other than \<^verbatim>\<open>.\<close> and \<^verbatim>\<open>..\<close> separated by single slashes, such as
  \<^verbatim>\<open>pathfinding\<close> or \<^verbatim>\<open>a/b\<close>; for any other cache type the model gives \<open>Unmodelled\<close>. That
  a folder cannot be made for another reason (a regular file in its place, a missing
  permission) is not modelled.
\<close>

fun path_parts :: "string \<Rightarrow> string list" where
  "path_parts [] = [[]]"
| "path_parts (c # cs) =
     (if c = CHR ''/'' then [] # path_parts cs
      else (case path_parts cs of [] \<Rightarrow> [[c]] | p # ps \<Rightarrow> (c # p) # ps))"

definition plain_path :: "string \<Rightarrow> bool" where
  "plain_path p = list_all (\<lambda>n. n \<noteq> [] \<and> n \<noteq> ''.'' \<and> n \<noteq> ''..'') (path_parts p)"

definition type_folder :: "string \<Rightarrow> string" where
  "type_folder cache_type = CACHE_FOLDER @ ''/'' @ cache_type"

definition parent_folder :: "string \<Rightarrow> string" where
  "parent_folder p = rev (tl (dropWhile (\<lambda>c. c \<noteq> CHR ''/'') (rev p)))"

definition make_type_folder :: "string set \<Rightarrow> string \<Rightarrow> py_error + string set" where
  "make_type_folder folders cache_type =
     (let d = type_folder cache_type in
      if \<not> plain_path cache_type then Inl Unmodelled
      else if d \<in> folders then Inr folders
      else if parent_folder d = CACHE_FOLDER \<or> parent_folder d \<in> folders then
        Inr (insert d folders)
      else Inl FileNotFoundError)"

text \<open>
  \<^verbatim>\<open>get_cache_file\<close>, \<^verbatim>\<open>get\<close>, \<^verbatim>\<open>set\<close> and \<^verbatim>\<open>exists\<close> of \<^verbatim>\<open>CacheManager\<close> on the folders and
  the world. The \<^verbatim>\<open>mkdir\<close> stands before every \<^verbatim>\<open>try\<close>, so its exception leaves the
  method. In \<^verbatim>\<open>set\<close>, \<^verbatim>\<open>open\<close> has emptied the file when \<^verbatim>\<open>json.dump\<close> raises, be it for the
  file (\<open>DumpFails\<close>) or for a value that it cannot write.
\<close>

definition CacheManager_get_cache_file ::
  "string set \<Rightarrow> string \<Rightarrow> string \<Rightarrow> py_error + (string set \<times> string)" where
  "CacheManager_get_cache_file folders cache_type key =
     (case make_type_folder folders cache_type of
        Inl e \<Rightarrow> Inl e
      | Inr folders' \<Rightarrow> Inr (folders', get_cache_file cache_type key))"

fun CacheManager_get ::
  "string set \<times> world \<Rightarrow> string \<Rightarrow> string \<Rightarrow> (string set \<times> world) \<times> (py_error + json)" where
  "CacheManager_get (folders, w) cache_type key =
     (case CacheManager_get_cache_file folders cache_type key of
        Inl e \<Rightarrow> ((folders, w), Inl e)
      | Inr (folders', cache_file) \<Rightarrow>
          ((folders', w),
           Inr (case files w cache_file of
                  None \<Rightarrow> JNull
                | Some Unreadable \<Rightarrow> JNull
                | Some (Parsed v) \<Rightarrow> v)))"

fun CacheManager_set ::
  "string set \<times> world \<Rightarrow> string \<Rightarrow> string \<Rightarrow> pyval \<Rightarrow> (string set \<times> world) \<times> (py_error + unit)" where
  "CacheManager_set (folders, w) cache_type key v =
     (case CacheManager_get_cache_file folders cache_type key of
        Inl e \<Rightarrow> ((folders, w), Inl e)
      | Inr (folders', cache_file) \<Rightarrow>
          (case write_oracle w (clock w) cache_file of
             OpenFails \<Rightarrow> ((folders', emit (Print LogCacheSaveError) (tick w)), Inr ())
           | DumpFails \<Rightarrow>
               ((folders',
                 emit (Print LogCacheSaveError)
                   (tick (w\<lparr>files := (files w)(cache_file \<mapsto> Unreadable)\<rparr>))),
                Inr ())
           | Persisted \<Rightarrow>
               (case stored_value v of
                  Inl e \<Rightarrow>
                    ((folders',
                      emit (Print LogCacheSaveError)
                        (tick (w\<lparr>files := (files w)(cache_file \<mapsto> Unreadable)\<rparr>))),
                     Inr ())
                | Inr j \<Rightarrow>
                    ((folders', tick (w\<lparr>files := (files w)(cache_file \<mapsto> Parsed j)\<rparr>)),
                     Inr ()))))"

fun CacheManager_exists ::
  "string set \<times> world \<Rightarrow> string \<Rightarrow> string \<Rightarrow> (string set \<times> world) \<times> (py_error + bool)" where
  "CacheManager_exists (folders, w) cache_type key =
     (case CacheManager_get_cache_file folders cache_type key of
        Inl e \<Rightarrow> ((folders, w), Inl e)
      | Inr (folders', cache_file) \<Rightarrow> ((folders', w), Inr (files w cache_file \<noteq> None)))"

section \<open>GameDataManager\<close>

text \<open>
  The two entity indexes are dictionaries built by a comprehension over the entries'
  \<^verbatim>\<open>id\<close> (any hashable value: two keys are the same key when Python's \<^verbatim>\<open>==\<close> says so),
  or the loaded value itself when the file does not hold a list.
\<close>

datatype dataset = Index "(json \<times> json) list" | Raw json

record game_data =
  npcs_data :: dataset
  monsters_data :: dataset
  maps_info :: json

fun hashable :: "json \<Rightarrow> bool" where
  "hashable (JArr xs) = False"
| "hashable (JObj kvs) = False"
| "hashable _ = True"

definition key_eq :: "json \<Rightarrow> json \<Rightarrow> bool" where
  "key_eq a b =
     (case as_number a of
        Some x \<Rightarrow> as_number b = Some x
      | None \<Rightarrow> as_number b = None \<and> a = b)"

fun dict_store :: "(json \<times> json) list \<Rightarrow> json \<Rightarrow> json \<Rightarrow> (json \<times> json) list" where
  "dict_store [] k v = [(k, v)]"
| "dict_store ((k', v') # rest) k v =
     (if key_eq k' k then (k', v) # rest else (k', v') # dict_store rest k v)"

fun index_by_id :: "json list \<Rightarrow> (json \<times> json) list \<Rightarrow> py_error + (json \<times> json) list" where
  "index_by_id [] acc = Inr acc"
| "index_by_id (entry # rest) acc =
     (case subscript entry ''id'' of
        Inl e \<Rightarrow> Inl e
      | Inr k \<Rightarrow> if hashable k then index_by_id rest (dict_store acc k entry) else Inl TypeError)"

definition dataset_len :: "dataset \<Rightarrow> py_error + nat" where
  "dataset_len d = (case d of Index kvs \<Rightarrow> Inr (length kvs) | Raw v \<Rightarrow> py_len v)"

definition dataset_values :: "dataset \<Rightarrow> py_error + json list" where
  "dataset_values d =
     (case d of
        Index kvs \<Rightarrow> Inr (map snd kvs)
      | Raw (JObj kvs) \<Rightarrow> Inr (map snd kvs)
      | Raw _ \<Rightarrow> Inl AttributeError)"

text \<open>One of the two blocks of \<^verbatim>\<open>load_all_data\<close> that load an entity file: the file is
  optional; a list is indexed by \<^verbatim>\<open>id\<close>, any other value is kept as it is.\<close>

definition load_entities :: "world \<Rightarrow> string \<Rightarrow> dataset \<Rightarrow> py_error + dataset" where
  "load_entities w path old =
     (case files w path of
        None \<Rightarrow> Inr old
      | Some Unreadable \<Rightarrow> Inl JSONDecodeError
      | Some (Parsed (JArr xs)) \<Rightarrow>
          (case index_by_id xs [] of Inl e \<Rightarrow> Inl e | Inr kvs \<Rightarrow> Inr (Index kvs))
      | Some (Parsed v) \<Rightarrow> Inr (Raw v))"

definition load_maps_info :: "world \<Rightarrow> json \<Rightarrow> py_error + json" where
  "load_maps_info w old =
     (case files w MAPS_JSON of
        None \<Rightarrow> Inr old
      | Some Unreadable \<Rightarrow> Inl JSONDecodeError
      | Some (Parsed v) \<Rightarrow> Inr v)"

definition init_game_data :: game_data where
  "init_game_data = \<lparr>npcs_data = Index [], monsters_data = Index [], maps_info = JObj []\<rparr>"

text \<open>
  \<^verbatim>\<open>load_all_data\<close>. Each count is printed only when its file exists; any exception is
  logged and raised again. The last block of the source only counts the map files for a
  log line, or creates the missing folder; it is left out with the folders.
\<close>

definition load_all_data :: "world \<Rightarrow> game_data \<Rightarrow> world \<times> (py_error + game_data)" where
  "load_all_data w gd =
     (let fail = (\<lambda>w' e. (emit (Print (LogLoadError e)) w', Inl e)) in
      case load_entities w NPCS_JSON (npcs_data gd) of
        Inl e \<Rightarrow> fail w e
      | Inr npcs \<Rightarrow>
      (case (if files w NPCS_JSON = None then Inr None else map_sum id Some (dataset_len npcs)) of
        Inl e \<Rightarrow> fail w e
      | Inr n1 \<Rightarrow>
      (let w1 = (case n1 of None \<Rightarrow> w | Some n \<Rightarrow> emit (Print (LogNpcsLoaded n)) w) in
      case load_entities w1 MONSTERS_JSON (monsters_data gd) of
        Inl e \<Rightarrow> fail w1 e
      | Inr monsters \<Rightarrow>
      (case (if files w1 MONSTERS_JSON = None then Inr None
             else map_sum id Some (dataset_len monsters)) of
        Inl e \<Rightarrow> fail w1 e
      | Inr n2 \<Rightarrow>
      (let w2 = (case n2 of None \<Rightarrow> w1 | Some n \<Rightarrow> emit (Print (LogMonstersLoaded n)) w1) in
      case load_maps_info w2 (maps_info gd) of
        Inl e \<Rightarrow> fail w2 e
      | Inr info \<Rightarrow>
      (case (if files w2 MAPS_JSON = None then Inr None else map_sum id Some (py_len info)) of
        Inl e \<Rightarrow> fail w2 e
      | Inr n3 \<Rightarrow>
      (let w3 = (case n3 of None \<Rightarrow> w2 | Some n \<Rightarrow> emit (Print (LogMapsInfoLoaded n)) w2) in
       (w3, Inr \<lparr>npcs_data = npcs, monsters_data = monsters, maps_info = info\<rparr>))))))))"

text \<open>The name an entity is matched by: \<^verbatim>\<open>e.get("name", {}).get("fr", "").lower()\<close>.\<close>

definition entity_name_lower :: "json \<Rightarrow> py_error + string" where
  "entity_name_lower entry =
     (case dict_get entry ''name'' (JObj []) of
        Inl e \<Rightarrow> Inl e
      | Inr names \<Rightarrow>
          (case dict_get names ''fr'' (JStr []) of
             Inl e \<Rightarrow> Inl e
           | Inr (JStr s) \<Rightarrow> Inr (str_lower s)
           | Inr _ \<Rightarrow> Inl AttributeError))"

text \<open>The test of the two name searches:
  \<^verbatim>\<open>name_lower in npc_name or npc_name in name_lower\<close>.\<close>

definition name_matches :: "string \<Rightarrow> string \<Rightarrow> bool" where
  "name_matches name_lower entry_name =
     (str_in name_lower entry_name \<or> str_in entry_name name_lower)"

text \<open>The loop of \<^verbatim>\<open>find_npc_by_name\<close> and of \<^verbatim>\<open>find_monster_by_name\<close>: the first entity
  whose name contains the pattern or is contained in it.\<close>

fun find_by_name :: "string \<Rightarrow> json list \<Rightarrow> py_error + json" where
  "find_by_name name_lower [] = Inr JNull"
| "find_by_name name_lower (entry # rest) =
     (case entity_name_lower entry of
        Inl e \<Rightarrow> Inl e
      | Inr entry_name \<Rightarrow>
          if name_matches name_lower entry_name then Inr entry
          else find_by_name name_lower rest)"

definition find_npc_by_name :: "game_data \<Rightarrow> string \<Rightarrow> py_error + json" where
  "find_npc_by_name gd name_pattern =
     (case dataset_values (npcs_data gd) of
        Inl e \<Rightarrow> Inl e
      | Inr entries \<Rightarrow> find_by_name (str_lower name_pattern) entries)"

definition find_monster_by_name :: "game_data \<Rightarrow> string \<Rightarrow> py_error + json" where
  "find_monster_by_name gd name_pattern =
     (case dataset_values (monsters_data gd) of
        Inl e \<Rightarrow> Inl e
      | Inr entries \<Rightarrow> find_by_name (str_lower name_pattern) entries)"

text \<open>\<^verbatim>\<open>get_map_name\<close>: the French name of a map, or the placeholder.\<close>

definition get_map_name :: "game_data \<Rightarrow> int \<Rightarrow> py_error + json" where
  "get_map_name gd map_id =
     (case dict_get (maps_info gd) (show_int map_id) (JObj []) of
        Inl e \<Rightarrow> Inl e
      | Inr map_info \<Rightarrow>
          (case dict_get map_info ''name'' (JObj []) of
             Inl e \<Rightarrow> Inl e
           | Inr names \<Rightarrow> dict_get names ''fr'' (JStr (''Map '' @ show_int map_id))))"

definition map_file_path :: "int \<Rightarrow> string" where
  "map_file_path map_id = MAPS_FOLDER @ ''/c_map_'' @ show_int map_id @ ''.json''"

text \<open>\<^verbatim>\<open>load_map_file\<close>: every call is recorded in the trace.\<close>

definition load_map_file :: "world \<Rightarrow> int \<Rightarrow> world \<times> json" where
  "load_map_file w map_id =
     (let w1 = emit (LoadMapFile map_id) w in
      case files w (map_file_path map_id) of
        None \<Rightarrow> (w1, JNull)
      | Some Unreadable \<Rightarrow> (emit (Print (LogMapReadError map_id)) w1, JNull)
      | Some (Parsed v) \<Rightarrow> (w1, v))"

subsection \<open>Location resolver\<close>

definition npc_cache_key :: "int \<Rightarrow> string" where
  "npc_cache_key npc_vnum = ''npc_location_'' @ show_int npc_vnum"

definition location_record :: "int \<Rightarrow> int \<Rightarrow> json \<Rightarrow> json \<Rightarrow> json" where
  "location_record map_id npc_vnum x y =
     JObj [(''map_id'', JInt map_id), (''npc_vnum'', JInt npc_vnum), (''x'', x), (''y'', y)]"

text \<open>The inner loop of \<^verbatim>\<open>search_npc_location\<close> over the placements of one map: \<open>True\<close>
  when a placement matched, was handed to the cache and the function returned.\<close>

fun scan_npcs :: "game_data \<Rightarrow> int \<Rightarrow> int \<Rightarrow> world \<Rightarrow> json list \<Rightarrow> world \<times> (py_error + bool)" where
  "scan_npcs gd npc_vnum map_id w [] = (w, Inr False)"
| "scan_npcs gd npc_vnum map_id w (npc # rest) =
     (case subscript npc ''vnum'' of
        Inl e \<Rightarrow> (w, Inl e)
      | Inr vn \<Rightarrow>
          if py_eq_int vn npc_vnum then
            (case get_map_name gd map_id of
               Inl e \<Rightarrow> (w, Inl e)
             | Inr map_name \<Rightarrow>
                 (let w1 = emit (Print (LogNpcFound map_id map_name)) w in
                  case subscript npc ''x'' of
                    Inl e \<Rightarrow> (w1, Inl e)
                  | Inr x \<Rightarrow>
                      (case subscript npc ''y'' of
                         Inl e \<Rightarrow> (w1, Inl e)
                       | Inr y \<Rightarrow>
                           (cache_set w1 ''npc_locations'' (npc_cache_key npc_vnum)
                              (location_record map_id npc_vnum x y), Inr True))))
          else scan_npcs gd npc_vnum map_id w rest)"

text \<open>The outer loop over the map identifiers.\<close>

fun scan_maps :: "game_data \<Rightarrow> int \<Rightarrow> world \<Rightarrow> int list \<Rightarrow> world \<times> (py_error + int option)" where
  "scan_maps gd npc_vnum w [] = (w, Inr None)"
| "scan_maps gd npc_vnum w (map_id # ids) =
     (case load_map_file w map_id of
        (w1, map_data) \<Rightarrow>
          if \<not> truthy map_data then scan_maps gd npc_vnum w1 ids
          else
            (case dict_get map_data ''npcs'' (JArr []) of
               Inl e \<Rightarrow> (w1, Inl e)
             | Inr npcs \<Rightarrow>
                 (case py_iter npcs of
                    Inl e \<Rightarrow> (w1, Inl e)
                  | Inr placements \<Rightarrow>
                      (case scan_npcs gd npc_vnum map_id w1 placements of
                         (w2, Inl e) \<Rightarrow> (w2, Inl e)
                       | (w2, Inr True) \<Rightarrow> (w2, Inr (Some map_id))
                       | (w2, Inr False) \<Rightarrow> scan_maps gd npc_vnum w2 ids))))"

text \<open>\<^verbatim>\<open>range(1, 413)\<close>.\<close>

definition map_id_range :: "int list" where
  "map_id_range = [1..412]"

definition search_npc_location :: "world \<Rightarrow> game_data \<Rightarrow> int \<Rightarrow> world \<times> (py_error + json)" where
  "search_npc_location w gd npc_vnum =
     (let cached = cache_get w ''npc_locations'' (npc_cache_key npc_vnum) in
      if truthy cached then
        (case subscript cached ''map_id'' of
           Inl e \<Rightarrow> (w, Inl e)
         | Inr m \<Rightarrow> (emit (Print (LogNpcCacheHit npc_vnum m)) w, Inr m))
      else
        (case scan_maps gd npc_vnum (emit (Print (LogNpcSearch npc_vnum)) w) map_id_range of
           (w2, Inl e) \<Rightarrow> (w2, Inl e)
         | (w2, Inr (Some map_id)) \<Rightarrow> (w2, Inr (JInt map_id))
         | (w2, Inr None) \<Rightarrow> (emit (Print (LogNpcNotFound npc_vnum)) w2, Inr JNull)))"

subsection \<open>Route provider\<close>

text \<open>The source map is the bot's \<^verbatim>\<open>current_map_id\<close>, which is \<^verbatim>\<open>None\<close> until a poll
  succeeded; an f-string prints it as \<^verbatim>\<open>None\<close>.\<close>

definition show_map :: "int option \<Rightarrow> string" where
  "show_map m = (case m of None \<Rightarrow> ''None'' | Some i \<Rightarrow> show_int i)"

definition json_of_map :: "int option \<Rightarrow> json" where
  "json_of_map m = (case m of None \<Rightarrow> JNull | Some i \<Rightarrow> JInt i)"

definition route_cache_key :: "int option \<Rightarrow> int \<Rightarrow> string" where
  "route_cache_key from_map to_map = show_map from_map @ ''_to_'' @ show_int to_map"

definition route_record :: "int option \<Rightarrow> int \<Rightarrow> json \<Rightarrow> json" where
  "route_record from_map to_map path =
     JObj [(''from'', json_of_map from_map), (''to'', JInt to_map), (''path'', path)]"

text \<open>
  \<^verbatim>\<open>get_pathfinding\<close>. \<^verbatim>\<open>raise_for_status\<close> raises for the status codes 400 to 599. The
  two log lines of the 403 branch are one message here, and the warning that the session
  prints once the cookie is older than 15 minutes is left out (it depends on the time
  of day only).
\<close>

definition get_pathfinding :: "world \<Rightarrow> int option \<Rightarrow> int \<Rightarrow> world \<times> (py_error + json)" where
  "get_pathfinding w from_map to_map =
     (let cache_key = route_cache_key from_map to_map;
          cached = cache_get w ''pathfinding'' cache_key in
      if truthy cached then
        (emit (Print (LogRouteCacheHit from_map to_map)) w, dict_get cached ''path'' (JArr []))
      else
        (let w1 = emit (HttpGet from_map to_map)
                    (tick (emit (Print (LogRouteRequest from_map to_map)) w)) in
         case http_oracle w (clock w) from_map to_map of
           ConnectionFails \<Rightarrow> (emit (Print LogRouteError) w1, Inr (JArr []))
         | Response status body \<Rightarrow>
             if 400 \<le> status \<and> status < 600 then
               (if status = 403 then (emit (Print LogHttp403) w1, Inr (JArr []))
                else (emit (Print (LogHttpError status)) w1, Inr (JArr [])))
             else
               (case body of
                  None \<Rightarrow> (emit (Print LogRouteError) w1, Inr (JArr []))
                | Some result \<Rightarrow>
                    (case dict_get result ''path'' (JArr []) of
                       Inl e \<Rightarrow> (emit (Print LogRouteError) w1, Inr (JArr []))
                     | Inr path \<Rightarrow>
                         (emit (Print LogRouteCached)
                            (cache_set w1 ''pathfinding'' cache_key
                               (route_record from_map to_map path)),
                          Inr path)))))"

text \<open>The loop of \<^verbatim>\<open>get_portal_to_next_map\<close>: the first portal to the next map.\<close>

fun find_portal :: "json list \<Rightarrow> int \<Rightarrow> py_error + (json \<times> json) option" where
  "find_portal [] next_map = Inr None"
| "find_portal (portal # rest) next_map =
     (case subscript portal ''destination_map_id'' of
        Inl e \<Rightarrow> Inl e
      | Inr d \<Rightarrow>
          if py_eq_int d next_map then
            (case subscript portal ''source_map_x'' of
               Inl e \<Rightarrow> Inl e
             | Inr x \<Rightarrow>
                 (case subscript portal ''source_map_y'' of
                    Inl e \<Rightarrow> Inl e
                  | Inr y \<Rightarrow> Inr (Some (x, y))))
          else find_portal rest next_map)"

definition get_portal_to_next_map ::
  "world \<Rightarrow> int \<Rightarrow> int \<Rightarrow> world \<times> (py_error + (json \<times> json) option)" where
  "get_portal_to_next_map w current_map next_map =
     (case load_map_file w current_map of
        (w1, map_data) \<Rightarrow>
          if \<not> truthy map_data then (w1, Inr None)
          else
            (case dict_get map_data ''portals'' (JArr []) of
               Inl e \<Rightarrow> (w1, Inl e)
             | Inr portals \<Rightarrow>
                 (case py_iter portals of
                    Inl e \<Rightarrow> (w1, Inl e)
                  | Inr ps \<Rightarrow> (w1, find_portal ps next_map))))"

section \<open>NostaleQuestBot: the navigator\<close>

record bot =
  current_map_id :: "int option"
  current_x :: int
  current_y :: int

text \<open>\<^verbatim>\<open>update_position\<close>: the three assignments run in order, and an exception at any of
  them is logged and swallowed, keeping the assignments already made.\<close>

definition update_position :: "world \<Rightarrow> bot \<Rightarrow> world \<times> bot" where
  "update_position w b =
     (let w1 = emit PollPosition (tick w) in
      case poll_oracle w (clock w) of
        PollFull m x y \<Rightarrow> (w1, b\<lparr>current_map_id := Some m, current_x := x, current_y := y\<rparr>)
      | PollMapX m x \<Rightarrow>
          (emit (Print LogPositionError) w1, b\<lparr>current_map_id := Some m, current_x := x\<rparr>)
      | PollMapOnly m \<Rightarrow> (emit (Print LogPositionError) w1, b\<lparr>current_map_id := Some m\<rparr>)
      | PollRaises \<Rightarrow> (emit (Print LogPositionError) w1, b))"

text \<open>\<^verbatim>\<open>walk_to\<close>: the walk command goes to the game client; when the client raises, the
  position is not refreshed.\<close>

definition walk_to :: "world \<Rightarrow> bot \<Rightarrow> json \<Rightarrow> json \<Rightarrow> world \<times> bot" where
  "walk_to w b x y =
     (let w1 = emit (WalkCommand x y) (tick (emit (Print (LogWalk x y)) w)) in
      if walk_oracle w (clock w) then update_position w1 b
      else (emit (Print LogWalkError) w1, b))"

text \<open>\<^verbatim>\<open>not path or len(path) < 2\<close>.\<close>

definition short_route :: "json \<Rightarrow> py_error + bool" where
  "short_route path =
     (if truthy path then (case py_len path of Inl e \<Rightarrow> Inl e | Inr n \<Rightarrow> Inr (n < 2))
      else Inr True)"

fun route_ints :: "json list \<Rightarrow> int list option" where
  "route_ints [] = Some []"
| "route_ints (JInt m # rest) = (case route_ints rest of None \<Rightarrow> None | Some ms \<Rightarrow> Some (m # ms))"
| "route_ints (_ # rest) = None"

definition route_of :: "json \<Rightarrow> int list option" where
  "route_of path = (case path of JArr xs \<Rightarrow> route_ints xs | _ \<Rightarrow> None)"

text \<open>The names joined for the log line of the route: \<^verbatim>\<open>join\<close> accepts strings only.\<close>

fun map_names :: "game_data \<Rightarrow> int list \<Rightarrow> py_error + json list" where
  "map_names gd [] = Inr []"
| "map_names gd (m # ms) =
     (case get_map_name gd m of
        Inl e \<Rightarrow> Inl e
      | Inr n \<Rightarrow> (case map_names gd ms of Inl e \<Rightarrow> Inl e | Inr ns \<Rightarrow> Inr (n # ns)))"

fun is_str :: "json \<Rightarrow> bool" where
  "is_str (JStr s) = True"
| "is_str _ = False"

definition route_log :: "game_data \<Rightarrow> int list \<Rightarrow> py_error + log_msg" where
  "route_log gd ms =
     (case map_names gd ms of
        Inl e \<Rightarrow> Inl e
      | Inr ns \<Rightarrow> if list_all is_str ns then Inr (LogRoute ns) else Inl TypeError)"

text \<open>
  The loop of \<^verbatim>\<open>travel_to_map\<close> over the consecutive pairs of the route. It ends when the
  pairs are used up, when a portal is missing, when an exception is raised, or at a
  desynchronisation, where the source returns the result of calling \<^verbatim>\<open>travel_to_map\<close>
  again: the loop reports \<open>Desync\<close> and \<open>travel_to_map\<close> below makes that call.
\<close>

datatype hop_outcome = Finished | Desync | NoPortal | Raised py_error

fun travel_hops :: "game_data \<Rightarrow> world \<Rightarrow> bot \<Rightarrow> int list \<Rightarrow> (world \<times> bot) \<times> hop_outcome" where
  "travel_hops gd w b (current # next_map # rest) =
     (case update_position w b of
        (w1, b1) \<Rightarrow>
          if current_map_id b1 \<noteq> Some current then
            ((emit (Print (LogDesync current (current_map_id b1))) w1, b1), Desync)
          else
            (case get_portal_to_next_map w1 current next_map of
               (w2, Inl e) \<Rightarrow> ((w2, b1), Raised e)
             | (w2, Inr None) \<Rightarrow>
                 (case get_map_name gd current of
                    Inl e \<Rightarrow> ((w2, b1), Raised e)
                  | Inr n1 \<Rightarrow>
                      (case get_map_name gd next_map of
                         Inl e \<Rightarrow> ((w2, b1), Raised e)
                       | Inr n2 \<Rightarrow> ((emit (Print (LogPortalMissing n1 n2)) w2, b1), NoPortal)))
             | (w2, Inr (Some (x, y))) \<Rightarrow>
                 (case get_map_name gd next_map of
                    Inl e \<Rightarrow> ((w2, b1), Raised e)
                  | Inr n2 \<Rightarrow>
                      (case walk_to (emit (Print (LogPortal n2 x y)) w2) b1 x y of
                         (w3, b3) \<Rightarrow> travel_hops gd w3 b3 (next_map # rest)))))"
| "travel_hops gd w b route = ((w, b), Finished)"

text \<open>
  \<^verbatim>\<open>travel_to_map\<close>. The source recurses without a bound; the first argument is the number
  of invocations (the first one and its re-invocations) the model may make, and \<open>None\<close>
  says that they were used up.
\<close>

fun travel_to_map ::
  "nat \<Rightarrow> game_data \<Rightarrow> world \<Rightarrow> bot \<Rightarrow> int \<Rightarrow> ((world \<times> bot) \<times> (py_error + bool)) option" where
  "travel_to_map 0 gd w b target_map = None"
| "travel_to_map (Suc fuel) gd w b target_map =
     (case update_position w b of
        (w1, b1) \<Rightarrow>
          if current_map_id b1 = Some target_map then
            (case get_map_name gd target_map of
               Inl e \<Rightarrow> Some ((w1, b1), Inl e)
             | Inr n \<Rightarrow> Some ((emit (Print (LogAlreadyThere n)) w1, b1), Inr True))
          else
            (case get_pathfinding w1 (current_map_id b1) target_map of
               (w2, Inl e) \<Rightarrow> Some ((w2, b1), Inl e)
             | (w2, Inr path) \<Rightarrow>
                 (case short_route path of
                    Inl e \<Rightarrow> Some ((w2, b1), Inl e)
                  | Inr True \<Rightarrow>
                      (case get_map_name gd target_map of
                         Inl e \<Rightarrow> Some ((w2, b1), Inl e)
                       | Inr n \<Rightarrow> Some ((emit (Print (LogNoRoute n)) w2, b1), Inr False))
                  | Inr False \<Rightarrow>
                      (case route_of path of
                         None \<Rightarrow> Some ((w2, b1), Inl Unmodelled)
                       | Some route \<Rightarrow>
                           (case route_log gd route of
                              Inl e \<Rightarrow> Some ((w2, b1), Inl e)
                            | Inr msg \<Rightarrow>
                                (case travel_hops gd (emit (Print msg) w2) b1 route of
                                   ((w3, b3), Desync) \<Rightarrow> travel_to_map fuel gd w3 b3 target_map
                                 | ((w3, b3), NoPortal) \<Rightarrow> Some ((w3, b3), Inr False)
                                 | ((w3, b3), Raised e) \<Rightarrow> Some ((w3, b3), Inl e)
                                 | ((w3, b3), Finished) \<Rightarrow>
                                     (case update_position w3 b3 of
                                        (w4, b4) \<Rightarrow>
                                          if current_map_id b4 = Some target_map then
                                            (case get_map_name gd target_map of
                                               Inl e \<Rightarrow> Some ((w4, b4), Inl e)
                                             | Inr n \<Rightarrow>
                                                 Some ((emit (Print (LogArrived n)) w4, b4), Inr True))
                                          else
                                            Some ((emit (Print (LogWrongMap (current_map_id b4)
                                                     target_map)) w4, b4), Inr False))))))))"

text \<open>
  What an invocation of \<^verbatim>\<open>travel_to_map\<close> does with the answer of the route provider (from
  the test of the length of the route to the end of the function), named so that the
  invocation can be written as the position refresh, the lookup, and this.
\<close>

definition follow_route ::
  "nat \<Rightarrow> game_data \<Rightarrow> world \<Rightarrow> bot \<Rightarrow> int \<Rightarrow> json \<Rightarrow> ((world \<times> bot) \<times> (py_error + bool)) option" where
  "follow_route fuel gd w2 b1 target_map path =
     (case short_route path of
        Inl e \<Rightarrow> Some ((w2, b1), Inl e)
      | Inr True \<Rightarrow>
          (case get_map_name gd target_map of
             Inl e \<Rightarrow> Some ((w2, b1), Inl e)
           | Inr n \<Rightarrow> Some ((emit (Print (LogNoRoute n)) w2, b1), Inr False))
      | Inr False \<Rightarrow>
          (case route_of path of
             None \<Rightarrow> Some ((w2, b1), Inl Unmodelled)
           | Some route \<Rightarrow>
               (case route_log gd route of
                  Inl e \<Rightarrow> Some ((w2, b1), Inl e)
                | Inr msg \<Rightarrow>
                    (case travel_hops gd (emit (Print msg) w2) b1 route of
                       ((w3, b3), Desync) \<Rightarrow> travel_to_map fuel gd w3 b3 target_map
                     | ((w3, b3), NoPortal) \<Rightarrow> Some ((w3, b3), Inr False)
                     | ((w3, b3), Raised e) \<Rightarrow> Some ((w3, b3), Inl e)
                     | ((w3, b3), Finished) \<Rightarrow>
                         (case update_position w3 b3 of
                            (w4, b4) \<Rightarrow>
                              if current_map_id b4 = Some target_map then
                                (case get_map_name gd target_map of
                                   Inl e \<Rightarrow> Some ((w4, b4), Inl e)
                                 | Inr n \<Rightarrow> Some ((emit (Print (LogArrived n)) w4, b4), Inr True))
                              else
                                Some ((emit (Print (LogWrongMap (current_map_id b4) target_map)) w4,
                                       b4), Inr False))))))"

section \<open>Concrete worlds\<close>

text \<open>The worlds at which the theorems below are evaluated. In \<open>quiet_world\<close> every
  write persists, the routing service is unreachable and the game client answers no
  poll; the other worlds differ from it in the oracles that they name.\<close>

definition quiet_world :: "(string \<Rightarrow> content option) \<Rightarrow> world" where
  "quiet_world fs =
     \<lparr>files = fs, clock = 0, trace = [], write_oracle = (\<lambda>n p. Persisted),
      http_oracle = (\<lambda>n a b. ConnectionFails), poll_oracle = (\<lambda>n. PollRaises),
      walk_oracle = (\<lambda>n. True)\<rparr>"

definition readonly_world :: "(string \<Rightarrow> content option) \<Rightarrow> world" where
  "readonly_world fs = (quiet_world fs)\<lparr>write_oracle := (\<lambda>n p. OpenFails)\<rparr>"

definition npc_mimi :: json where
  "npc_mimi = JObj [(''id'', JInt 1), (''name'', JObj [(''fr'', JStr ''Mimi'')])]"

definition monster_loup :: json where
  "monster_loup = JObj [(''id'', JInt 2), (''name'', JObj [(''fr'', JStr ''Loup'')])]"

definition two_source_files :: "string \<Rightarrow> content option" where
  "two_source_files =
     [''data/npcs.json'' \<mapsto> Parsed (JArr [npc_mimi]),
      ''data/monsters.json'' \<mapsto> Parsed (JArr [monster_loup])]"

definition nameless_entity :: json where
  "nameless_entity = JObj [(''id'', JInt 7)]"

definition nameless_first :: game_data where
  "nameless_first =
     \<lparr>npcs_data = Index [(JInt 7, nameless_entity), (JInt 1, npc_mimi)],
      monsters_data = Index [(JInt 7, nameless_entity), (JInt 2, monster_loup)],
      maps_info = JObj []\<rparr>"

definition forbidden_world :: world where
  "forbidden_world = (quiet_world Map.empty)\<lparr>http_oracle := (\<lambda>n a b. Response 403 None)\<rparr>"

definition server_error_world :: world where
  "server_error_world = (quiet_world Map.empty)\<lparr>http_oracle := (\<lambda>n a b. Response 500 None)\<rparr>"

definition route_1_2_cached :: world where
  "route_1_2_cached =
     quiet_world [''data/cache/pathfinding/1_to_2.json'' \<mapsto>
                    Parsed (route_record (Some 1) 2 (JArr [JInt 1, JInt 2]))]"

text \<open>Values handed to the cache: a route record, another one, a pair, a dictionary keyed
  by an integer, and a dictionary keyed by a pair, which \<^verbatim>\<open>json.dump\<close> refuses.\<close>

definition route_dict :: pyval where
  "route_dict = PDict [(PStr ''path'', PList [PInt 1, PInt 2])]"

definition empty_route_dict :: pyval where
  "empty_route_dict = PDict [(PStr ''path'', PList [])]"

definition pair_value :: pyval where
  "pair_value = PTuple [PInt 1, PInt 2]"

definition int_keyed_dict :: pyval where
  "int_keyed_dict = PDict [(PInt 1, PStr ''a'')]"

definition pair_keyed_dict :: pyval where
  "pair_keyed_dict = PDict [(PTuple [PInt 1, PInt 2], PStr ''a'')]"

text \<open>A disk with an empty cache folder, and one that has the folder of the routes but
  lets no file be opened for writing.\<close>

definition empty_disk :: "string set \<times> world" where
  "empty_disk = ({}, quiet_world Map.empty)"

definition readonly_disk :: "string set \<times> world" where
  "readonly_disk = ({type_folder ''pathfinding''}, readonly_world Map.empty)"

text \<open>The scenario of the specification: entity 4013 stands on map 20 at (45, 60) and on
  no other map. Map 3 holds another entity, and the file of map 5 is damaged.\<close>

definition npc_4013 :: json where
  "npc_4013 = JObj [(''vnum'', JInt 4013), (''x'', JInt 45), (''y'', JInt 60)]"

definition npc_77 :: json where
  "npc_77 = JObj [(''vnum'', JInt 77), (''x'', JInt 3), (''y'', JInt 4)]"

definition corpus_files :: "string \<Rightarrow> content option" where
  "corpus_files =
     [''data/maps/c_map_3.json'' \<mapsto> Parsed (JObj [(''npcs'', JArr [npc_77])]),
      ''data/maps/c_map_5.json'' \<mapsto> Unreadable,
      ''data/maps/c_map_20.json'' \<mapsto> Parsed (JObj [(''npcs'', JArr [npc_77, npc_4013])])]"

text \<open>A cache that holds a location for entity 4013 although no map file places it.\<close>

definition stale_cache_files :: "string \<Rightarrow> content option" where
  "stale_cache_files =
     [''data/cache/npc_locations/npc_location_4013.json'' \<mapsto>
        Parsed (JObj [(''map_id'', JInt 7), (''npc_vnum'', JInt 4013),
                      (''x'', JInt 1), (''y'', JInt 1)])]"

text \<open>
  Worlds for the navigator. The bot starts with no position. In \<open>lost_world\<close> the
  player stands on map 1 and the routing service is unreachable; in \<open>one_map_world\<close>
  the service answers with the route \<open>[1]\<close>. In \<open>ahead_world\<close> the first poll shows
  map 1 and every later poll map 2, and the service knows the route \<open>[1, 2, 3]\<close> from
  map 1 and nothing else; in \<open>arrived_world\<close> the polls are the same and the route from
  map 1 to map 2 is \<open>[1, 2]\<close>.
\<close>

definition new_bot :: bot where
  "new_bot = \<lparr>current_map_id = None, current_x = 0, current_y = 0\<rparr>"

definition lost_world :: world where
  "lost_world = (quiet_world Map.empty)\<lparr>poll_oracle := (\<lambda>n. PollFull 1 10 10)\<rparr>"

definition one_map_world :: world where
  "one_map_world =
     (quiet_world Map.empty)
       \<lparr>http_oracle := (\<lambda>n a b. Response 200 (Some (JObj [(''path'', JArr [JInt 1])]))),
        poll_oracle := (\<lambda>n. PollFull 1 10 10)\<rparr>"

definition ahead_world :: world where
  "ahead_world =
     (quiet_world Map.empty)
       \<lparr>http_oracle :=
          (\<lambda>n a b. if a = Some 1 then
                     Response 200 (Some (JObj [(''path'', JArr [JInt 1, JInt 2, JInt 3])]))
                   else ConnectionFails),
        poll_oracle := (\<lambda>n. if n = 0 then PollFull 1 10 10 else PollFull 2 5 5)\<rparr>"

definition arrived_world :: world where
  "arrived_world =
     (quiet_world Map.empty)
       \<lparr>http_oracle :=
          (\<lambda>n a b. if a = Some 1 then Response 200 (Some (JObj [(''path'', JArr [JInt 1, JInt 2])]))
                   else ConnectionFails),
        poll_oracle := (\<lambda>n. if n = 0 then PollFull 1 10 10 else PollFull 2 5 5)\<rparr>"

section \<open>Notions of the specification\<close>

text \<open>A routing request that fails over HTTP: no connection, a status that
  \<^verbatim>\<open>raise_for_status\<close> rejects, a body that is not JSON, or a body that is not an
  object.\<close>

definition request_fails :: "http_result \<Rightarrow> bool" where
  "request_fails r =
     (case r of
        ConnectionFails \<Rightarrow> True
      | Response status body \<Rightarrow>
          if 400 \<le> status \<and> status < 600 then True
          else (case body of None \<Rightarrow> True | Some (JObj kvs) \<Rightarrow> False | Some _ \<Rightarrow> True))"

definition is_forbidden :: "http_result \<Rightarrow> bool" where
  "is_forbidden r = (case r of ConnectionFails \<Rightarrow> False | Response status body \<Rightarrow> status = 403)"

text \<open>The message a failed request is reported with.\<close>

definition failure_log :: "http_result \<Rightarrow> log_msg" where
  "failure_log r =
     (case r of
        ConnectionFails \<Rightarrow> LogRouteError
      | Response status body \<Rightarrow>
          if 400 \<le> status \<and> status < 600 then
            (if status = 403 then LogHttp403 else LogHttpError status)
          else LogRouteError)"

text \<open>
  What the scan of \<^verbatim>\<open>search_npc_location\<close> sees of a map: the placements of its file
  (none when the file is missing, unreadable or holds a false value), and among them
  the first placement of an entity. A map lacks the entity when the scan of its
  placements comes to the end without a match.
\<close>

definition placements :: "(string \<Rightarrow> content option) \<Rightarrow> int \<Rightarrow> py_error + json list" where
  "placements fs map_id =
     (case fs (map_file_path map_id) of
        Some (Parsed d) \<Rightarrow>
          if truthy d then
            (case dict_get d ''npcs'' (JArr []) of Inl e \<Rightarrow> Inl e | Inr npcs \<Rightarrow> py_iter npcs)
          else Inr []
      | _ \<Rightarrow> Inr [])"

fun placement_of :: "json list \<Rightarrow> int \<Rightarrow> py_error + json option" where
  "placement_of [] npc_vnum = Inr None"
| "placement_of (npc # rest) npc_vnum =
     (case subscript npc ''vnum'' of
        Inl e \<Rightarrow> Inl e
      | Inr vn \<Rightarrow> if py_eq_int vn npc_vnum then Inr (Some npc) else placement_of rest npc_vnum)"

definition npc_on_map :: "(string \<Rightarrow> content option) \<Rightarrow> int \<Rightarrow> int \<Rightarrow> py_error + json option" where
  "npc_on_map fs npc_vnum map_id =
     (case placements fs map_id of Inl e \<Rightarrow> Inl e | Inr ps \<Rightarrow> placement_of ps npc_vnum)"

definition map_lacks :: "(string \<Rightarrow> content option) \<Rightarrow> int \<Rightarrow> int \<Rightarrow> bool" where
  "map_lacks fs npc_vnum map_id = (npc_on_map fs npc_vnum map_id = Inr None)"

text \<open>What loading the map files of a list of identifiers adds to the trace.\<close>

definition load_events :: "(string \<Rightarrow> content option) \<Rightarrow> int \<Rightarrow> event list" where
  "load_events fs map_id =
     LoadMapFile map_id #
     (case fs (map_file_path map_id) of
        Some Unreadable \<Rightarrow> [Print (LogMapReadError map_id)]
      | _ \<Rightarrow> [])"

definition scan_events :: "(string \<Rightarrow> content option) \<Rightarrow> int list \<Rightarrow> event list" where
  "scan_events fs ids = concat (map (load_events fs) ids)"

text \<open>The calls of the map-file loader among the events of a trace.\<close>

definition is_load :: "event \<Rightarrow> bool" where
  "is_load e = (case e of LoadMapFile m \<Rightarrow> True | _ \<Rightarrow> False)"

text \<open>The walk commands among the events of a trace, and the event by which a call of
  \<^verbatim>\<open>get_pathfinding\<close> for a pair of maps starts: the log line of the cache hit, or the
  one that announces the request.\<close>

definition is_walk :: "event \<Rightarrow> bool" where
  "is_walk e = (case e of WalkCommand x y \<Rightarrow> True | _ \<Rightarrow> False)"

definition is_lookup :: "int option \<Rightarrow> int \<Rightarrow> event \<Rightarrow> bool" where
  "is_lookup a b e = (e = Print (LogRouteCacheHit a b) \<or> e = Print (LogRouteRequest a b))"

text \<open>The second world has seen everything the first has, and possibly more.\<close>

definition extends :: "world \<Rightarrow> world \<Rightarrow> bool" where
  "extends w w' = (\<exists>es. trace w' = trace w @ es)"

text \<open>
  A Python value of JSON shape: no tuple, and every dictionary keyed by strings, each key
  once. These are the values that \<^verbatim>\<open>json.load\<close> can return.
\<close>

fun is_pstr :: "pyval \<Rightarrow> bool" where
  "is_pstr (PStr s) = True"
| "is_pstr _ = False"

fun json_shaped :: "pyval \<Rightarrow> bool"
  and shaped_list :: "pyval list \<Rightarrow> bool"
  and shaped_items :: "(pyval \<times> pyval) list \<Rightarrow> bool" where
  "json_shaped (PList xs) = shaped_list xs"
| "json_shaped (PTuple xs) = False"
| "json_shaped (PDict kvs) = (shaped_items kvs \<and> distinct (map fst kvs))"
| "json_shaped v = True"
| "shaped_list [] = True"
| "shaped_list (x # xs) = (json_shaped x \<and> shaped_list xs)"
| "shaped_items [] = True"
| "shaped_items ((k, v) # kvs) = (is_pstr k \<and> json_shaped v \<and> shaped_items kvs)"

text \<open>An entity record whose French display name is absent or empty.\<close>

definition has_no_name :: "json \<Rightarrow> bool" where
  "has_no_name entry =
     (case entry of
        JObj kvs \<Rightarrow>
          (case map_of kvs ''name'' of
             None \<Rightarrow> True
           | Some (JObj names) \<Rightarrow>
               (case map_of names ''fr'' of
                  None \<Rightarrow> True
                | Some (JStr s) \<Rightarrow> s = []
                | Some _ \<Rightarrow> False)
           | Some _ \<Rightarrow> False)
      | _ \<Rightarrow> False)"

definition mimi_only :: game_data where
  "mimi_only =
     \<lparr>npcs_data = Index [(JInt 1, npc_mimi)], monsters_data = Index [(JInt 1, npc_mimi)],
      maps_info = JObj []\<rparr>"

section \<open>Basic facts\<close>

lemmas path_defs =
  DATA_PATH_def MAPS_FOLDER_def CACHE_FOLDER_def NPCS_JSON_def MONSTERS_JSON_def MAPS_JSON_def

subsection \<open>Decimal strings determine their numbers\<close>

declare show_nat.simps [simp del]


lemma of_char_digit: "d < 10 \<Longrightarrow> (of_char (digit_char d) :: nat) = 48 + d"
  by (simp add: digit_char_def)

lemma digit_char_inj: "a < 10 \<Longrightarrow> b < 10 \<Longrightarrow> digit_char a = digit_char b \<Longrightarrow> a = b"
proof -
  assume a: "a < 10" and b: "b < 10" and eq: "digit_char a = digit_char b"
  from eq have "(of_char (digit_char a) :: nat) = of_char (digit_char b)" by simp
  with a b show "a = b" by (simp add: of_char_digit)
qed


lemma is_digit_digit_char: "d < 10 \<Longrightarrow> is_digit (digit_char d)"
  by (simp add: is_digit_def of_char_digit)

lemma show_nat_digits: "list_all is_digit (show_nat n)"
proof (induction n rule: show_nat.induct)
  case (1 n)
  show ?case
  proof (cases "n < 10")
    case True
    then show ?thesis by (simp add: show_nat.simps [of n] is_digit_digit_char)
  next
    case False
    with 1 show ?thesis by (simp add: show_nat.simps [of n] is_digit_digit_char)
  qed
qed

lemma show_nat_nonempty: "show_nat n \<noteq> []"
  by (simp add: show_nat.simps [of n])

lemma show_nat_inj: "show_nat m = show_nat n \<Longrightarrow> m = n"
proof (induction m arbitrary: n rule: show_nat.induct)
  case (1 m)
  show ?case
  proof (cases "m < 10")
    case m: True
    show ?thesis
    proof (cases "n < 10")
      case True
      with m 1(2) show ?thesis
        by (simp add: show_nat.simps [of m] show_nat.simps [of n] digit_char_inj)
    next
      case False
      with m 1(2) show ?thesis
        using show_nat_nonempty [of "n div 10"]
        by (simp add: show_nat.simps [of m] show_nat.simps [of n])
    qed
  next
    case m: False
    show ?thesis
    proof (cases "n < 10")
      case True
      with m 1(2) show ?thesis
        using show_nat_nonempty [of "m div 10"]
        by (simp add: show_nat.simps [of m] show_nat.simps [of n])
    next
      case False
      with m 1(2) have eq: "show_nat (m div 10) = show_nat (n div 10)"
        and d: "digit_char (m mod 10) = digit_char (n mod 10)"
        by (simp_all add: show_nat.simps [of m] show_nat.simps [of n])
      from 1(1) [OF m eq] have "m div 10 = n div 10" .
      moreover from d have "m mod 10 = n mod 10"
        by (intro digit_char_inj) simp_all
      ultimately show ?thesis
        by (metis div_mult_mod_eq)
    qed
  qed
qed


lemma show_int_chars: "list_all is_int_char (show_int i)"
  using show_nat_digits [of "nat i"] show_nat_digits [of "nat (- i)"]
  by (auto simp: show_int_def is_int_char_def list_all_iff)

lemma hd_show_nat_digit: "is_digit (hd (show_nat n))"
  using show_nat_digits [of n] show_nat_nonempty [of n]
  by (cases "show_nat n") simp_all

lemma show_int_inj: "show_int i = show_int j \<Longrightarrow> i = j"
proof -
  assume eq: "show_int i = show_int j"
  have nd: "\<not> is_digit (CHR ''-'')" by (simp add: is_digit_def)
  show "i = j"
  proof (cases "i < 0")
    case i: True
    show ?thesis
    proof (cases "j < 0")
      case True
      with i eq have "show_nat (nat (- i)) = show_nat (nat (- j))" by (simp add: show_int_def)
      then have "nat (- i) = nat (- j)" by (rule show_nat_inj)
      with i True show ?thesis by simp
    next
      case False
      with i eq have "CHR ''-'' # show_nat (nat (- i)) = show_nat (nat j)"
        by (simp add: show_int_def)
      then have "hd (show_nat (nat j)) = CHR ''-''" by (metis list.sel(1))
      with hd_show_nat_digit [of "nat j"] nd show ?thesis by simp
    qed
  next
    case i: False
    show ?thesis
    proof (cases "j < 0")
      case True
      with i eq have "show_nat (nat i) = CHR ''-'' # show_nat (nat (- j))"
        by (simp add: show_int_def)
      then have "hd (show_nat (nat i)) = CHR ''-''" by (metis list.sel(1))
      with hd_show_nat_digit [of "nat i"] nd show ?thesis by simp
    next
      case False
      with i eq have "show_nat (nat i) = show_nat (nat j)" by (simp add: show_int_def)
      then have "nat i = nat j" by (rule show_nat_inj)
      with i False show ?thesis by simp
    qed
  qed
qed

lemma show_int_eq_iff [simp]: "show_int i = show_int j \<longleftrightarrow> i = j"
  using show_int_inj by auto

subsection \<open>Distinct keys name distinct files\<close>

lemma underscore_not_int_char: "\<not> is_int_char (CHR ''_'')"
  by (simp add: is_int_char_def is_digit_def)

lemma show_int_no_underscore: "CHR ''_'' \<notin> set (show_int i)"
  using show_int_chars [of i] underscore_not_int_char
  by (auto simp: list_all_iff)

lemma show_int_nonempty: "show_int i \<noteq> []"
  by (simp add: show_int_def show_nat_nonempty)

lemma hd_show_int: "is_int_char (hd (show_int i))"
  using show_int_chars [of i] show_int_nonempty [of i]
  by (cases "show_int i") simp_all

lemma show_int_not_None: "show_int i \<noteq> ''None''"
proof
  assume "show_int i = ''None''"
  then have "hd (show_int i) = CHR ''N''" by simp
  with hd_show_int [of i] show False
    by (simp add: is_int_char_def is_digit_def)
qed

lemma show_map_eq_iff [simp]: "show_map a = show_map b \<longleftrightarrow> a = b"
  using show_int_not_None
  by (cases a; cases b) (auto simp: show_map_def dest: sym)

lemma show_map_no_underscore: "CHR ''_'' \<notin> set (show_map a)"
  by (cases a) (simp_all add: show_map_def show_int_no_underscore)

lemma split_at_underscore:
  assumes "CHR ''_'' \<notin> set xs" "CHR ''_'' \<notin> set ys"
    and "xs @ CHR ''_'' # r = ys @ CHR ''_'' # s"
  shows "xs = ys \<and> r = s"
proof -
  have tw: "takeWhile (\<lambda>c. c \<noteq> CHR ''_'') (zs @ CHR ''_'' # t) = zs"
    if "CHR ''_'' \<notin> set zs" for zs t
    using that by (induction zs) auto
  have "takeWhile (\<lambda>c. c \<noteq> CHR ''_'') (xs @ CHR ''_'' # r) = xs"
    using assms(1) by (rule tw)
  moreover have "takeWhile (\<lambda>c. c \<noteq> CHR ''_'') (ys @ CHR ''_'' # s) = ys"
    using assms(2) by (rule tw)
  ultimately have "xs = ys" using assms(3) by simp
  with assms(3) show ?thesis by simp
qed

lemma route_cache_key_eq_iff [simp]:
  "route_cache_key a b = route_cache_key a' b' \<longleftrightarrow> a = a' \<and> b = b'"
proof
  assume eq: "route_cache_key a b = route_cache_key a' b'"
  then have "show_map a @ CHR ''_'' # (''to_'' @ show_int b) =
             show_map a' @ CHR ''_'' # (''to_'' @ show_int b')"
    by (simp add: route_cache_key_def)
  from split_at_underscore [OF show_map_no_underscore show_map_no_underscore this]
  show "a = a' \<and> b = b'" by simp
qed simp

lemma get_cache_file_eq_iff [simp]:
  "get_cache_file t k = get_cache_file t k' \<longleftrightarrow> k = k'"
  by (simp add: get_cache_file_def)

lemma npc_cache_key_eq_iff [simp]: "npc_cache_key v = npc_cache_key v' \<longleftrightarrow> v = v'"
  by (simp add: npc_cache_key_def)

lemma map_file_path_eq_iff [simp]: "map_file_path m = map_file_path m' \<longleftrightarrow> m = m'"
  by (simp add: map_file_path_def)

subsection \<open>Strings, cache entries\<close>

lemma str_in_empty [simp]: "str_in [] s"
  by (induction s) auto

lemma cache_set_oracle [simp]: "write_oracle (cache_set w t k v) = write_oracle w"
  by (simp add: cache_set_def tick_def emit_def Let_def split: write_outcome.splits)

lemma cache_set_clock [simp]: "clock (cache_set w t k v) = Suc (clock w)"
  by (simp add: cache_set_def tick_def emit_def Let_def split: write_outcome.splits)

lemma cache_get_set_persisted:
  "write_oracle w (clock w) (get_cache_file t k) = Persisted \<Longrightarrow>
   cache_get (cache_set w t k v) t k = v"
  by (simp add: cache_get_def cache_set_def tick_def)

section \<open>The static dataset\<close>

lemma same_entity_file: "NPCS_JSON = MONSTERS_JSON"
  by (simp add: path_defs)

text \<open>
  Claim C1 says that the NPC index and the monster index are loaded from two distinct
  sources, so that \<open>find_npc_by_name\<close> searches the NPC definitions. The source binds
  both \<open>NPCS_JSON\<close> and \<open>MONSTERS_JSON\<close> to \<^verbatim>\<open>monsters.json\<close>. With an NPC file that
  holds Mimi and a monster file that holds Loup, the loaded NPC index is the monster
  index: the search for the NPC Mimi finds nothing, and the search for Loup among the
  NPCs returns the monster.
\<close>

theorem npc_index_is_loaded_from_monster_file:
  "snd (load_all_data (quiet_world two_source_files) init_game_data) =
     Inr \<lparr>npcs_data = Index [(JInt 2, monster_loup)],
          monsters_data = Index [(JInt 2, monster_loup)], maps_info = JObj []\<rparr> \<and>
   find_npc_by_name
     \<lparr>npcs_data = Index [(JInt 2, monster_loup)],
      monsters_data = Index [(JInt 2, monster_loup)], maps_info = JObj []\<rparr> ''Mimi'' = Inr JNull \<and>
   find_npc_by_name
     \<lparr>npcs_data = Index [(JInt 2, monster_loup)],
      monsters_data = Index [(JInt 2, monster_loup)], maps_info = JObj []\<rparr> ''Loup'' =
     Inr monster_loup"
proof (intro conjI)
  show "snd (load_all_data (quiet_world two_source_files) init_game_data) =
     Inr \<lparr>npcs_data = Index [(JInt 2, monster_loup)],
          monsters_data = Index [(JInt 2, monster_loup)], maps_info = JObj []\<rparr>"
    by code_simp
  show "find_npc_by_name
     \<lparr>npcs_data = Index [(JInt 2, monster_loup)],
      monsters_data = Index [(JInt 2, monster_loup)], maps_info = JObj []\<rparr> ''Mimi'' = Inr JNull"
    by code_simp
  show "find_npc_by_name
     \<lparr>npcs_data = Index [(JInt 2, monster_loup)],
      monsters_data = Index [(JInt 2, monster_loup)], maps_info = JObj []\<rparr> ''Loup'' =
     Inr monster_loup"
    by code_simp
qed

lemma has_no_name_lower:
  assumes "has_no_name e"
  shows "entity_name_lower e = Inr []"
proof (cases e)
  case (JObj kvs)
  show ?thesis
  proof (cases "map_of kvs ''name''")
    case None
    with JObj show ?thesis by (simp add: entity_name_lower_def str_lower_def)
  next
    case (Some nm)
    with assms JObj obtain names where nm: "nm = JObj names"
      by (cases nm) (simp_all add: has_no_name_def)
    show ?thesis
    proof (cases "map_of names ''fr''")
      case None
      with JObj Some nm show ?thesis by (simp add: entity_name_lower_def str_lower_def)
    next
      case fr: (Some fr)
      with assms JObj Some nm have "fr = JStr []"
        by (cases fr) (simp_all add: has_no_name_def)
      with JObj Some nm fr show ?thesis
        by (simp add: entity_name_lower_def str_lower_def)
    qed
  qed
qed (use assms in \<open>simp_all add: has_no_name_def\<close>)

text \<open>
  Claim C10: the empty name matches every pattern, and the empty pattern matches every
  name, because the empty string occurs in every string. So a record whose French name
  is absent or empty has the empty name, and when it is the first value of the index it
  is what \<open>find_npc_by_name\<close> and \<open>find_monster_by_name\<close> return for every pattern; and
  for the empty pattern the first record of the index is returned whatever its name is.
\<close>

theorem nameless_entity_matches_everything:
  "name_matches p [] \<and> name_matches (str_lower []) n \<and>
   (has_no_name e \<longrightarrow> entity_name_lower e = Inr []) \<and>
   (has_no_name e \<and> dataset_values (npcs_data gd) = Inr (e # rest) \<longrightarrow>
      find_npc_by_name gd pat = Inr e) \<and>
   (has_no_name e \<and> dataset_values (monsters_data gd) = Inr (e # rest) \<longrightarrow>
      find_monster_by_name gd pat = Inr e) \<and>
   (entity_name_lower e = Inr n \<and> dataset_values (npcs_data gd) = Inr (e # rest) \<longrightarrow>
      find_npc_by_name gd [] = Inr e) \<and>
   (entity_name_lower e = Inr n \<and> dataset_values (monsters_data gd) = Inr (e # rest) \<longrightarrow>
      find_monster_by_name gd [] = Inr e)"
  by (auto simp: find_npc_by_name_def find_monster_by_name_def has_no_name_lower
      name_matches_def str_lower_def)

theorem nameless_entity_matches_everything_witness:
  "has_no_name nameless_entity \<and>
   entity_name_lower nameless_entity = Inr [] \<and>
   find_npc_by_name nameless_first ''Mimi'' = Inr nameless_entity \<and>
   find_monster_by_name nameless_first ''Loup'' = Inr nameless_entity \<and>
   entity_name_lower npc_mimi = Inr ''mimi'' \<and>
   find_npc_by_name mimi_only [] = Inr npc_mimi \<and>
   find_monster_by_name mimi_only [] = Inr npc_mimi"
proof -
  have a: "has_no_name nameless_entity"
    by (simp add: has_no_name_def nameless_entity_def)
  have b: "dataset_values (npcs_data nameless_first) = Inr [nameless_entity, npc_mimi]"
    by (simp add: dataset_values_def nameless_first_def)
  have c: "dataset_values (monsters_data nameless_first) = Inr [nameless_entity, monster_loup]"
    by (simp add: dataset_values_def nameless_first_def)
  have d: "entity_name_lower npc_mimi = Inr ''mimi''"
    by code_simp
  have e: "dataset_values (npcs_data mimi_only) = Inr [npc_mimi]"
    "dataset_values (monsters_data mimi_only) = Inr [npc_mimi]"
    by (simp_all add: dataset_values_def mimi_only_def)
  show ?thesis
    using a b c d e
      nameless_entity_matches_everything
        [of "''mimi''" "''mimi''" nameless_entity nameless_first "[npc_mimi]" "''Mimi''"]
      nameless_entity_matches_everything
        [of "''loup''" "''mimi''" nameless_entity nameless_first "[monster_loup]" "''Loup''"]
      nameless_entity_matches_everything
        [of "''mimi''" "''mimi''" npc_mimi mimi_only "[]" "''Mimi''"]
    by simp
qed

section \<open>The cache\<close>

subsection \<open>What is read back from what was written\<close>

lemma object_store_fresh:
  "k \<notin> fst ` set acc \<Longrightarrow> object_store acc k v = acc @ [(k, v)]"
  by (induction acc) auto

lemma load_object_distinct_aux:
  "distinct (map fst (acc @ items)) \<Longrightarrow>
   foldl (\<lambda>acc kv. object_store acc (fst kv) (snd kv)) acc items = acc @ items"
proof (induction items arbitrary: acc)
  case Nil
  then show ?case by simp
next
  case (Cons kv items)
  have fresh: "fst kv \<notin> fst ` set acc"
    using Cons.prems by auto
  have "distinct (map fst ((acc @ [kv]) @ items))"
    using Cons.prems by simp
  from Cons.IH [OF this] show ?case
    by (simp add: object_store_fresh [OF fresh])
qed

lemma load_object_distinct: "distinct (map fst items) \<Longrightarrow> load_object items = items"
  using load_object_distinct_aux [of "[]" items] by (simp add: load_object_def)

lemma is_pstr_iff: "is_pstr k = (\<exists>s. k = PStr s)"
  by (cases k) simp_all

lemma round_trip_all:
  "(json_shaped v \<longrightarrow> (\<exists>j. stored_value v = Inr j \<and> py_of_json j = v))"
  "(shaped_list xs \<longrightarrow> (\<exists>js. stored_list xs = Inr js \<and> py_of_list js = xs))"
  "(shaped_items kvs \<longrightarrow>
      (\<exists>items. stored_items kvs = Inr items \<and> py_of_items items = kvs \<and>
               map (\<lambda>a. PStr (fst a)) items = map fst kvs))"
proof (induction v and xs and kvs rule: stored_value_stored_list_stored_items.induct)
  case (7 kvs)
  show ?case
  proof
    assume a: "json_shaped (PDict kvs)"
    then obtain items where i: "stored_items kvs = Inr items" "py_of_items items = kvs"
      "map (\<lambda>a. PStr (fst a)) items = map fst kvs"
      using 7 by auto
    have "distinct (map PStr (map fst items))"
      using a i(3) by (simp add: comp_def)
    then have "distinct (map fst items)"
      by (rule distinct_map [THEN iffD1, THEN conjunct1])
    then show "\<exists>j. stored_value (PDict kvs) = Inr j \<and> py_of_json j = PDict kvs"
      using i by (simp add: load_object_distinct)
  qed
next
  case (11 k v kvs)
  show ?case
  proof
    assume a: "shaped_items ((k, v) # kvs)"
    then obtain s where k: "k = PStr s"
      by (auto simp: is_pstr_iff)
    then have kn: "key_name k = Inr s"
      by simp
    from a 11(1) [OF kn] obtain j where j: "stored_value v = Inr j" "py_of_json j = v"
      by auto
    from a 11(2) [OF kn j(1)] obtain items where
      i: "stored_items kvs = Inr items" "py_of_items items = kvs"
         "map (\<lambda>a. PStr (fst a)) items = map fst kvs"
      by auto
    show "\<exists>items. stored_items ((k, v) # kvs) = Inr items \<and>
             py_of_items items = (k, v) # kvs \<and>
             map (\<lambda>a. PStr (fst a)) items = map fst ((k, v) # kvs)"
      using k kn j i by simp
  qed
qed auto

lemma py_of_json_inj_all:
  "py_of_json a = py_of_json b \<longrightarrow> a = b"
  "py_of_list xs = py_of_list ys \<longrightarrow> xs = ys"
  "py_of_items kvs = py_of_items lws \<longrightarrow> kvs = lws"
proof (induction a and xs and kvs arbitrary: b and ys and lws
    rule: py_of_json_py_of_list_py_of_items.induct)
  case 1 then show ?case by (cases b) simp_all
next
  case (2 x) then show ?case by (cases b) simp_all
next
  case (3 i) then show ?case by (cases b) simp_all
next
  case (4 s) then show ?case by (cases b) simp_all
next
  case (5 xs) then show ?case by (cases b) simp_all
next
  case (6 kvs) then show ?case by (cases b) simp_all
next
  case 7 then show ?case by (cases ys) simp_all
next
  case (8 x xs) then show ?case by (cases ys) simp_all
next
  case 9 then show ?case by (cases lws) auto
next
  case (10 k v kvs) then show ?case by (cases lws) auto
qed

lemma py_of_json_eq_iff [simp]: "py_of_json a = py_of_json b \<longleftrightarrow> a = b"
  using py_of_json_inj_all(1) by blast

subsection \<open>The folder of a cache type\<close>

lemma path_parts_single: "CHR ''/'' \<notin> set t \<Longrightarrow> path_parts t = [t]"
  by (induction t) auto

lemma parent_of_type_folder:
  "CHR ''/'' \<notin> set t \<Longrightarrow> parent_folder (type_folder t) = CACHE_FOLDER"
proof -
  assume a: "CHR ''/'' \<notin> set t"
  have "dropWhile (\<lambda>c. c \<noteq> CHR ''/'') (rev t @ CHR ''/'' # rev CACHE_FOLDER) =
        CHR ''/'' # rev CACHE_FOLDER"
    using a by (subst dropWhile_append2) auto
  then show ?thesis
    by (simp add: parent_folder_def type_folder_def)
qed

lemma make_simple_type_folder:
  assumes "CHR ''/'' \<notin> set t" and "t \<noteq> []" and "t \<noteq> ''.''" and "t \<noteq> ''..''"
  shows "make_type_folder fo t = Inr (insert (type_folder t) fo)"
  using assms
  by (auto simp: make_type_folder_def Let_def plain_path_def path_parts_single
      parent_of_type_folder insert_absorb)

lemma make_type_folder_there:
  "make_type_folder fo t = Inr fo' \<Longrightarrow> make_type_folder fo' t = Inr fo'"
  by (auto simp: make_type_folder_def Let_def split: if_splits)

lemma make_type_folder_again:
  "make_type_folder fo t = Inr fo' \<Longrightarrow> type_folder t \<in> fo' \<and> plain_path t"
  by (auto simp: make_type_folder_def Let_def split: if_splits)

subsection \<open>The methods on the files\<close>

text \<open>With the folder of the type there, the methods of the class are the reading and
  the writing of the file.\<close>

declare CacheManager_get.simps [simp del] CacheManager_set.simps [simp del]
  CacheManager_exists.simps [simp del]

lemmas CacheManager_simps =
  CacheManager_get.simps CacheManager_set.simps CacheManager_exists.simps
  CacheManager_get_cache_file_def

lemma CacheManager_get_file:
  "make_type_folder fo t = Inr fo' \<Longrightarrow>
   CacheManager_get (fo, w) t k = ((fo', w), Inr (cache_get w t k))"
  by (simp add: CacheManager_simps cache_get_def)

lemma CacheManager_set_file:
  "make_type_folder fo t = Inr fo' \<Longrightarrow> stored_value v = Inr j \<Longrightarrow>
   CacheManager_set (fo, w) t k v = ((fo', cache_set w t k j), Inr ())"
  by (simp add: CacheManager_simps cache_set_def Let_def split: write_outcome.splits)

lemma CacheManager_exists_file:
  "make_type_folder fo t = Inr fo' \<Longrightarrow>
   CacheManager_exists (fo, w) t k = ((fo', w), Inr (cache_exists w t k))"
  by (simp add: CacheManager_simps cache_exists_def)

lemma CacheManager_set_folders:
  "make_type_folder fo t = Inr fo' \<Longrightarrow>
   \<exists>w1. CacheManager_set (fo, w) t k v = ((fo', w1), Inr ()) \<and>
        clock w1 = Suc (clock w) \<and> write_oracle w1 = write_oracle w"
  by (simp add: CacheManager_simps tick_def emit_def
      split: write_outcome.splits sum.splits)

lemma stored_json_value:
  assumes "json_shaped (py_of_json j)"
  shows "stored_value (py_of_json j) = Inr j"
proof -
  from round_trip_all(1) [of "py_of_json j"] assms
  obtain j' where "stored_value (py_of_json j) = Inr j'" "py_of_json j' = py_of_json j"
    by blast
  then show ?thesis
    by simp
qed

text \<open>The two cache types of the program are plain names: their folders can always be
  made, and the methods of the class do to the files what \<open>cache_get\<close>, \<open>cache_set\<close> and
  \<open>cache_exists\<close> do.\<close>

lemma program_cache_types:
  assumes "t = ''npc_locations'' \<or> t = ''pathfinding''"
  shows "CacheManager_get (fo, w) t k =
           ((insert (type_folder t) fo, w), Inr (cache_get w t k))"
    and "json_shaped (py_of_json j) \<Longrightarrow>
         CacheManager_set (fo, w) t k (py_of_json j) =
           ((insert (type_folder t) fo, cache_set w t k j), Inr ())"
    and "CacheManager_exists (fo, w) t k =
           ((insert (type_folder t) fo, w), Inr (cache_exists w t k))"
proof -
  have mk: "make_type_folder fo t = Inr (insert (type_folder t) fo)"
    using assms by (intro make_simple_type_folder) auto
  show "CacheManager_get (fo, w) t k =
           ((insert (type_folder t) fo, w), Inr (cache_get w t k))"
    by (rule CacheManager_get_file [OF mk])
  show "CacheManager_set (fo, w) t k (py_of_json j) =
           ((insert (type_folder t) fo, cache_set w t k j), Inr ())"
    if "json_shaped (py_of_json j)"
    by (rule CacheManager_set_file [OF mk stored_json_value [OF that]])
  show "CacheManager_exists (fo, w) t k =
           ((insert (type_folder t) fo, w), Inr (cache_exists w t k))"
    by (rule CacheManager_exists_file [OF mk])
qed

lemma routes_folder:
  "make_type_folder {} ''pathfinding'' = Inr {type_folder ''pathfinding''}"
  by (rule make_simple_type_folder) simp_all

lemma routes_folder_there:
  "make_type_folder {type_folder ''pathfinding''} ''pathfinding'' =
     Inr {type_folder ''pathfinding''}"
  by (rule make_type_folder_there [OF routes_folder])

lemma nested_folder: "make_type_folder {} ''a/b'' = Inl FileNotFoundError"
  by (simp add: make_type_folder_def plain_path_def parent_folder_def type_folder_def path_defs)

lemma show_1: "show_int 1 = ''1''"
  by code_simp

subsection \<open>Set, then get\<close>




section \<open>The route provider\<close>

lemma get_pathfinding_failed:
  assumes miss: "\<not> truthy (cache_get w ''pathfinding'' (route_cache_key a b))"
    and fails: "request_fails (http_oracle w (clock w) a b)"
  shows "get_pathfinding w a b =
     (w\<lparr>clock := Suc (clock w),
        trace := trace w @ [Print (LogRouteRequest a b), HttpGet a b,
                             Print (failure_log (http_oracle w (clock w) a b))]\<rparr>,
      Inr (JArr []))"
  using assms
  by (auto simp: get_pathfinding_def request_fails_def failure_log_def Let_def emit_def tick_def
      split: http_result.splits option.splits json.splits if_splits)

lemma get_pathfinding_miss_requests:
  assumes miss: "\<not> truthy (cache_get w ''pathfinding'' (route_cache_key a b))"
  shows "\<exists>es. trace (fst (get_pathfinding w a b)) =
           trace w @ Print (LogRouteRequest a b) # HttpGet a b # es"
  using miss
  by (auto simp: get_pathfinding_def emit_def tick_def cache_set_def Let_def
      split: http_result.splits option.splits sum.splits write_outcome.splits)

lemma failure_log_403: "(failure_log r = LogHttp403) = is_forbidden r"
  by (auto simp: failure_log_def is_forbidden_def split: http_result.splits)

lemma get_pathfinding_files_other:
  "p \<noteq> get_cache_file ''pathfinding'' (route_cache_key a b) \<Longrightarrow>
   files (fst (get_pathfinding w a b)) p = files w p"
  by (auto simp: get_pathfinding_def emit_def tick_def cache_set_def Let_def
      split: http_result.splits option.splits sum.splits write_outcome.splits)

lemma get_pathfinding_frame:
  assumes "p \<noteq> get_cache_file ''pathfinding'' (route_cache_key a b)"
  shows "get_pathfinding (w\<lparr>files := (files w)(p := c)\<rparr>) a b =
     (case get_pathfinding w a b of (w', r) \<Rightarrow> (w'\<lparr>files := (files w')(p := c)\<rparr>, r))"
  using assms
  by (auto simp: get_pathfinding_def emit_def tick_def cache_set_def cache_get_def Let_def fun_upd_twist
      split: http_result.splits option.splits sum.splits write_outcome.splits)

text \<open>
  Claim C6: when the cache has no usable entry for the pair and the routing request fails
  (no connection, a status from 400 to 599, a body that is not JSON or not an object),
  \<open>get_pathfinding\<close> returns the empty route and leaves every file as it was; the world
  changes by the one request and three log entries only. The failure is logged as
  \<open>LogHttp403\<close> exactly when the status is 403, and as another message otherwise. The
  entry is still missing afterwards, so the next call for the same pair sends the request
  again.
\<close>

theorem failed_request_is_not_cached:
  assumes miss: "\<not> truthy (cache_get w ''pathfinding'' (route_cache_key a b))"
    and fails: "request_fails (http_oracle w (clock w) a b)"
  shows "get_pathfinding w a b =
           (w\<lparr>clock := Suc (clock w),
              trace := trace w @ [Print (LogRouteRequest a b), HttpGet a b,
                                   Print (failure_log (http_oracle w (clock w) a b))]\<rparr>,
            Inr (JArr [])) \<and>
         files (fst (get_pathfinding w a b)) = files w \<and>
         (failure_log (http_oracle w (clock w) a b) = LogHttp403) =
           is_forbidden (http_oracle w (clock w) a b) \<and>
         (\<exists>es. trace (fst (get_pathfinding (fst (get_pathfinding w a b)) a b)) =
                 trace (fst (get_pathfinding w a b)) @
                 Print (LogRouteRequest a b) # HttpGet a b # es)"
proof -
  note first = get_pathfinding_failed [OF miss fails]
  have same: "files (fst (get_pathfinding w a b)) = files w"
    by (simp add: first)
  then have "\<not> truthy (cache_get (fst (get_pathfinding w a b)) ''pathfinding''
                        (route_cache_key a b))"
    using miss by (simp add: cache_get_def)
  from get_pathfinding_miss_requests [OF this] first same failure_log_403
  show ?thesis by simp
qed

theorem failed_request_is_not_cached_witness:
  "snd (get_pathfinding forbidden_world (Some 1) 2) = Inr (JArr []) \<and>
   trace (fst (get_pathfinding forbidden_world (Some 1) 2)) =
     [Print (LogRouteRequest (Some 1) 2), HttpGet (Some 1) 2, Print LogHttp403] \<and>
   files (fst (get_pathfinding forbidden_world (Some 1) 2)) = Map.empty \<and>
   snd (get_pathfinding server_error_world (Some 1) 2) = Inr (JArr []) \<and>
   trace (fst (get_pathfinding server_error_world (Some 1) 2)) =
     [Print (LogRouteRequest (Some 1) 2), HttpGet (Some 1) 2, Print (LogHttpError 500)] \<and>
   files (fst (get_pathfinding server_error_world (Some 1) 2)) = Map.empty"
proof -
  have m1: "\<not> truthy (cache_get forbidden_world ''pathfinding'' (route_cache_key (Some 1) 2))"
    by (simp add: cache_get_def forbidden_world_def quiet_world_def)
  have f1: "request_fails (http_oracle forbidden_world (clock forbidden_world) (Some 1) 2)"
    by (simp add: request_fails_def forbidden_world_def quiet_world_def)
  have m2: "\<not> truthy (cache_get server_error_world ''pathfinding'' (route_cache_key (Some 1) 2))"
    by (simp add: cache_get_def server_error_world_def quiet_world_def)
  have f2: "request_fails (http_oracle server_error_world (clock server_error_world) (Some 1) 2)"
    by (simp add: request_fails_def server_error_world_def quiet_world_def)
  show ?thesis
    using failed_request_is_not_cached [OF m1 f1] failed_request_is_not_cached [OF m2 f2]
    by (simp add: failure_log_def forbidden_world_def server_error_world_def quiet_world_def)
qed

text \<open>
  Claim C7: the files of the keys for (A, B) and for (B, A) are different files when A and
  B differ. \<open>get_pathfinding\<close> for (A, B) changes no other file than the one of its key,
  and whatever another file holds leaves its result and its effects as they are: it
  reads the file of its key only. So whatever the cache holds under the key for (A, B),
  the request for (B, A) is answered as if that entry was not there.
\<close>

theorem route_cache_is_directional:
  "(A \<noteq> B \<longrightarrow>
      get_cache_file ''pathfinding'' (route_cache_key (Some A) B) \<noteq>
      get_cache_file ''pathfinding'' (route_cache_key (Some B) A)) \<and>
   (p \<noteq> get_cache_file ''pathfinding'' (route_cache_key (Some A) B) \<longrightarrow>
      files (fst (get_pathfinding w (Some A) B)) p = files w p \<and>
      get_pathfinding (w\<lparr>files := (files w)(p := c)\<rparr>) (Some A) B =
        (case get_pathfinding w (Some A) B of
           (w', r) \<Rightarrow> (w'\<lparr>files := (files w')(p := c)\<rparr>, r))) \<and>
   (A \<noteq> B \<longrightarrow>
      snd (get_pathfinding
             (w\<lparr>files := (files w)(get_cache_file ''pathfinding'' (route_cache_key (Some A) B) := c)\<rparr>)
             (Some B) A) =
      snd (get_pathfinding w (Some B) A))"
proof (intro conjI impI)
  assume "A \<noteq> B"
  then show "get_cache_file ''pathfinding'' (route_cache_key (Some A) B) \<noteq>
      get_cache_file ''pathfinding'' (route_cache_key (Some B) A)"
    by simp
next
  assume "p \<noteq> get_cache_file ''pathfinding'' (route_cache_key (Some A) B)"
  then show "files (fst (get_pathfinding w (Some A) B)) p = files w p"
    by (rule get_pathfinding_files_other)
next
  assume "p \<noteq> get_cache_file ''pathfinding'' (route_cache_key (Some A) B)"
  then show "get_pathfinding (w\<lparr>files := (files w)(p := c)\<rparr>) (Some A) B =
        (case get_pathfinding w (Some A) B of
           (w', r) \<Rightarrow> (w'\<lparr>files := (files w')(p := c)\<rparr>, r))"
    by (rule get_pathfinding_frame)
next
  assume "A \<noteq> B"
  then have "get_cache_file ''pathfinding'' (route_cache_key (Some A) B) \<noteq>
      get_cache_file ''pathfinding'' (route_cache_key (Some B) A)"
    by simp
  from get_pathfinding_frame [OF this, of w c]
  show "snd (get_pathfinding
             (w\<lparr>files := (files w)(get_cache_file ''pathfinding'' (route_cache_key (Some A) B) := c)\<rparr>)
             (Some B) A) =
      snd (get_pathfinding w (Some B) A)"
    by (simp add: split_beta)
qed

theorem route_cache_is_directional_witness:
  "snd (get_pathfinding route_1_2_cached (Some 1) 2) = Inr (JArr [JInt 1, JInt 2]) \<and>
   snd (get_pathfinding route_1_2_cached (Some 2) 1) =
     snd (get_pathfinding (quiet_world Map.empty) (Some 2) 1) \<and>
   snd (get_pathfinding route_1_2_cached (Some 2) 1) = Inr (JArr []) \<and>
   trace (fst (get_pathfinding route_1_2_cached (Some 2) 1)) =
     [Print (LogRouteRequest (Some 2) 1), HttpGet (Some 2) 1, Print LogRouteError]"
proof -
  have k: "get_cache_file ''pathfinding'' (route_cache_key (Some 1) 2) =
           ''data/cache/pathfinding/1_to_2.json''"
    by code_simp
  have w: "(quiet_world Map.empty)\<lparr>files := (files (quiet_world Map.empty))
             (''data/cache/pathfinding/1_to_2.json'' :=
                Some (Parsed (route_record (Some 1) 2 (JArr [JInt 1, JInt 2]))))\<rparr> =
           route_1_2_cached"
    by (simp add: route_1_2_cached_def quiet_world_def)
  have a: "snd (get_pathfinding route_1_2_cached (Some 1) 2) = Inr (JArr [JInt 1, JInt 2])"
    by code_simp
  have b: "snd (get_pathfinding route_1_2_cached (Some 2) 1) = Inr (JArr [])"
    by code_simp
  have c: "trace (fst (get_pathfinding route_1_2_cached (Some 2) 1)) =
     [Print (LogRouteRequest (Some 2) 1), HttpGet (Some 2) 1, Print LogRouteError]"
    by code_simp
  show ?thesis
    using a b c
      route_cache_is_directional [of 1 2 "''x''" "quiet_world Map.empty"
        "Some (Parsed (route_record (Some 1) 2 (JArr [JInt 1, JInt 2])))"]
    by (simp add: k w)
qed

section \<open>The location resolver\<close>

lemma load_map_file_eq:
  "load_map_file w m =
     (w\<lparr>trace := trace w @ load_events (files w) m\<rparr>,
      case files w (map_file_path m) of Some (Parsed v) \<Rightarrow> v | _ \<Rightarrow> JNull)"
  by (simp add: load_map_file_def load_events_def emit_def Let_def
      split: option.splits content.splits)

lemma scan_npcs_none:
  "placement_of ps v = Inr None \<Longrightarrow> scan_npcs gd v m w ps = (w, Inr False)"
  by (induction ps) (auto split: sum.splits if_splits)

lemma scan_npcs_found:
  assumes "placement_of ps v = Inr (Some npc)"
    and "get_map_name gd m = Inr nm"
    and "subscript npc ''x'' = Inr x" and "subscript npc ''y'' = Inr y"
  shows "scan_npcs gd v m w ps =
     (cache_set (emit (Print (LogNpcFound m nm)) w) ''npc_locations'' (npc_cache_key v)
        (location_record m v x y), Inr True)"
  using assms by (induction ps) (auto split: sum.splits if_splits)

lemma scan_maps_none:
  "list_all (map_lacks (files w) v) ids \<Longrightarrow>
   scan_maps gd v w ids = (w\<lparr>trace := trace w @ scan_events (files w) ids\<rparr>, Inr None)"
proof (induction ids arbitrary: w)
  case Nil
  then show ?case by (simp add: scan_events_def)
next
  case (Cons m ids)
  let ?w1 = "w\<lparr>trace := trace w @ load_events (files w) m\<rparr>"
  from Cons.prems have "map_lacks (files w) v m"
    and rest: "list_all (map_lacks (files ?w1) v) ids"
    by simp_all
  then have lack: "npc_on_map (files w) v m = Inr None"
    by (simp add: map_lacks_def)
  have step: "scan_maps gd v w (m # ids) = scan_maps gd v ?w1 ids"
    using lack
    by (auto simp: load_map_file_eq npc_on_map_def placements_def scan_npcs_none
        split: option.splits content.splits sum.splits if_splits)
  show ?case
    unfolding step append_Cons using Cons.IH [OF rest] by (simp add: scan_events_def)
qed

lemma scan_maps_found:
  assumes pre: "list_all (map_lacks (files w) v) pre"
    and here: "npc_on_map (files w) v m = Inr (Some npc)"
    and nm: "get_map_name gd m = Inr nm"
    and x: "subscript npc ''x'' = Inr x" and y: "subscript npc ''y'' = Inr y"
  shows "scan_maps gd v w (pre @ m # post) =
     (cache_set
        (w\<lparr>trace := trace w @ scan_events (files w) pre @
                                [LoadMapFile m, Print (LogNpcFound m nm)]\<rparr>)
        ''npc_locations'' (npc_cache_key v) (location_record m v x y),
      Inr (Some m))"
  using pre here
proof (induction pre arbitrary: w)
  case Nil
  from Nil(2) obtain d npcs ps where d: "files w (map_file_path m) = Some (Parsed d)" "truthy d"
    "dict_get d ''npcs'' (JArr []) = Inr npcs" "py_iter npcs = Inr ps"
    "placement_of ps v = Inr (Some npc)"
    by (auto simp: npc_on_map_def placements_def
        split: option.splits content.splits sum.splits if_splits)
  then show ?case
    by (simp add: load_map_file_eq scan_npcs_found [OF d(5) nm x y] load_events_def
        scan_events_def emit_def)
next
  case (Cons k pre)
  let ?w1 = "w\<lparr>trace := trace w @ load_events (files w) k\<rparr>"
  from Cons.prems have "map_lacks (files w) v k"
    and rest: "list_all (map_lacks (files ?w1) v) pre"
    and here: "npc_on_map (files ?w1) v m = Inr (Some npc)"
    by simp_all
  then have lack: "npc_on_map (files w) v k = Inr None"
    by (simp add: map_lacks_def)
  have step: "scan_maps gd v w (k # pre @ m # post) = scan_maps gd v ?w1 (pre @ m # post)"
    using lack
    by (auto simp: load_map_file_eq npc_on_map_def placements_def scan_npcs_none
        split: option.splits content.splits sum.splits if_splits)
  show ?case
    unfolding step append_Cons using Cons.IH [OF rest here] by (simp add: scan_events_def)
qed

lemma scan_npcs_result:
  "scan_npcs gd v m w ps = (w', r) \<Longrightarrow>
   (case r of
      Inr True \<Rightarrow> (\<exists>w1 x y. w' = cache_set w1 ''npc_locations'' (npc_cache_key v)
                                  (location_record m v x y) \<and>
                     clock w1 = clock w \<and> write_oracle w1 = write_oracle w)
    | Inr False \<Rightarrow> w' = w
    | Inl e \<Rightarrow> True)"
proof (induction ps)
  case Nil
  then show ?case by auto
next
  case (Cons npc ps)
  show ?case
  proof (cases "subscript npc ''vnum''")
    case (Inl e)
    with Cons.prems show ?thesis by auto
  next
    case (Inr vn)
    show ?thesis
    proof (cases "py_eq_int vn v")
      case False
      with Inr Cons show ?thesis by simp
    next
      case True
      show ?thesis
      proof (cases r)
        case (Inl e)
        then show ?thesis by simp
      next
        case r: (Inr found)
        with Inr True Cons.prems obtain nm x y where
          "get_map_name gd m = Inr nm" "subscript npc ''x'' = Inr x" "subscript npc ''y'' = Inr y"
          by (auto simp: Let_def split: sum.splits)
        with Inr True Cons.prems r have
          "w' = cache_set (emit (Print (LogNpcFound m nm)) w) ''npc_locations'' (npc_cache_key v)
                  (location_record m v x y)" "found"
          by simp_all
        moreover have "clock (emit (Print (LogNpcFound m nm)) w) = clock w"
          "write_oracle (emit (Print (LogNpcFound m nm)) w) = write_oracle w"
          by (simp_all add: emit_def)
        ultimately show ?thesis using r by auto
      qed
    qed
  qed
qed

lemma scan_maps_some:
  "scan_maps gd v w ids = (w', Inr (Some m)) \<Longrightarrow>
   \<exists>w1 x y. w' = cache_set w1 ''npc_locations'' (npc_cache_key v) (location_record m v x y) \<and>
            clock w1 = clock w \<and> write_oracle w1 = write_oracle w"
proof (induction ids arbitrary: w)
  case Nil
  then show ?case by simp
next
  case (Cons k ids)
  let ?w1 = "w\<lparr>trace := trace w @ load_events (files w) k\<rparr>"
  let ?d = "case files w (map_file_path k) of Some (Parsed v) \<Rightarrow> v | _ \<Rightarrow> JNull"
  have w1: "clock ?w1 = clock w" "write_oracle ?w1 = write_oracle w" by simp_all
  show ?case
  proof (cases "truthy ?d")
    case False
    with Cons.prems have "scan_maps gd v ?w1 ids = (w', Inr (Some m))"
      by (simp add: load_map_file_eq)
    from Cons.IH [OF this] w1 show ?thesis by simp
  next
    case True
    with Cons.prems obtain npcs ps where ps: "dict_get ?d ''npcs'' (JArr []) = Inr npcs"
      "py_iter npcs = Inr ps"
      by (auto simp: load_map_file_eq split: sum.splits)
    obtain w2 r where sn: "scan_npcs gd v k ?w1 ps = (w2, r)" by (cases "scan_npcs gd v k ?w1 ps")
    show ?thesis
    proof (cases r)
      case (Inl e)
      with Cons.prems True ps sn show ?thesis by (simp add: load_map_file_eq)
    next
      case (Inr found)
      show ?thesis
      proof (cases found)
        case True
        with Cons.prems \<open>truthy ?d\<close> ps sn Inr have "w' = w2" "m = k"
          by (simp_all add: load_map_file_eq)
        with scan_npcs_result [OF sn] Inr True w1 show ?thesis by simp
      next
        case False
        with scan_npcs_result [OF sn] Inr have "w2 = ?w1" by simp
        with Cons.prems \<open>truthy ?d\<close> ps sn Inr False
        have "scan_maps gd v ?w1 ids = (w', Inr (Some m))"
          by (simp add: load_map_file_eq)
        from Cons.IH [OF this] w1 show ?thesis by simp
      qed
    qed
  qed
qed

lemma search_hit:
  assumes "files w (get_cache_file ''npc_locations'' (npc_cache_key v)) = Some (Parsed c)"
    and "truthy c" and "subscript c ''map_id'' = Inr m"
  shows "search_npc_location w gd v = (emit (Print (LogNpcCacheHit v m)) w, Inr m)"
  using assms by (simp add: search_npc_location_def cache_get_def)

lemma location_record_facts:
  "truthy (location_record m v x y)"
  "subscript (location_record m v x y) ''map_id'' = Inr (JInt m)"
  by (simp_all add: location_record_def)

lemma first_call_leaves_entry:
  assumes first: "search_npc_location w gd v = (w', Inr (JInt m))"
    and ok: "truthy (cache_get w ''npc_locations'' (npc_cache_key v)) \<or>
             write_oracle w (clock w) (get_cache_file ''npc_locations'' (npc_cache_key v)) = Persisted"
  shows "\<exists>c. files w' (get_cache_file ''npc_locations'' (npc_cache_key v)) = Some (Parsed c) \<and>
             truthy c \<and> subscript c ''map_id'' = Inr (JInt m)"
proof (cases "truthy (cache_get w ''npc_locations'' (npc_cache_key v))")
  case True
  then obtain c where c: "files w (get_cache_file ''npc_locations'' (npc_cache_key v)) = Some (Parsed c)"
    "truthy c"
    by (auto simp: cache_get_def split: option.splits content.splits)
  with first have "w' = emit (Print (LogNpcCacheHit v (JInt m))) w"
    "subscript c ''map_id'' = Inr (JInt m)"
    by (auto simp: search_npc_location_def cache_get_def split: sum.splits)
  with c show ?thesis by (simp add: emit_def)
next
  case False
  let ?w0 = "emit (Print (LogNpcSearch v)) w"
  from False ok have p: "write_oracle w (clock w)
      (get_cache_file ''npc_locations'' (npc_cache_key v)) = Persisted" by simp
  from False first have "scan_maps gd v ?w0 map_id_range = (w', Inr (Some m))"
    by (auto simp: search_npc_location_def split: prod.splits sum.splits option.splits)
  from scan_maps_some [OF this] obtain w1 x y where w1:
    "w' = cache_set w1 ''npc_locations'' (npc_cache_key v) (location_record m v x y)"
    "clock w1 = clock ?w0" "write_oracle w1 = write_oracle ?w0"
    by blast
  with p have "write_oracle w1 (clock w1)
      (get_cache_file ''npc_locations'' (npc_cache_key v)) = Persisted"
    by (simp add: emit_def)
  then have "files w' (get_cache_file ''npc_locations'' (npc_cache_key v)) =
             Some (Parsed (location_record m v x y))"
    by (simp add: w1(1) cache_set_def tick_def)
  then show ?thesis by (simp add: location_record_facts)
qed

lemma loads_of_scan: "filter is_load (scan_events fs ids) = map LoadMapFile ids"
  by (induction ids)
    (auto simp: scan_events_def load_events_def is_load_def split: option.splits content.splits)

lemma range_split:
  "1 \<le> m \<Longrightarrow> m \<le> 412 \<Longrightarrow> map_id_range = [1..m - 1] @ m # [m + 1..412]"
  unfolding map_id_range_def by (rule upto_split3)

lemma search_found:
  assumes miss: "\<not> truthy (cache_get w ''npc_locations'' (npc_cache_key v))"
    and range: "1 \<le> m" "m \<le> 412"
    and before: "list_all (map_lacks (files w) v) [1..m - 1]"
    and here: "npc_on_map (files w) v m = Inr (Some npc)"
    and xy: "subscript npc ''x'' = Inr x" "subscript npc ''y'' = Inr y"
    and nm: "get_map_name gd m = Inr nm"
  shows "search_npc_location w gd v =
           (cache_set
              (w\<lparr>trace := trace w @ Print (LogNpcSearch v) # scan_events (files w) [1..m - 1] @
                                      [LoadMapFile m, Print (LogNpcFound m nm)]\<rparr>)
              ''npc_locations'' (npc_cache_key v) (location_record m v x y),
            Inr (JInt m))"
proof -
  let ?w0 = "emit (Print (LogNpcSearch v)) w"
  have f: "files ?w0 = files w" by (simp add: emit_def)
  from before here have "list_all (map_lacks (files ?w0) v) [1..m - 1]"
    "npc_on_map (files ?w0) v m = Inr (Some npc)"
    by (simp_all add: f)
  from scan_maps_found [OF this nm xy, of "[m + 1..412]"] range_split [OF range] miss
  show ?thesis
    by (simp add: search_npc_location_def emit_def)
qed

lemma search_absent:
  assumes "\<not> truthy (cache_get u ''npc_locations'' (npc_cache_key v))"
    and "list_all (map_lacks (files u) v) map_id_range"
  shows "search_npc_location u gd v =
           (u\<lparr>trace := trace u @ Print (LogNpcSearch v) # scan_events (files u) map_id_range @
                                   [Print (LogNpcNotFound v)]\<rparr>,
            Inr JNull)"
proof -
  let ?u0 = "emit (Print (LogNpcSearch v)) u"
  from assms(2) have "list_all (map_lacks (files ?u0) v) map_id_range"
    by (simp add: emit_def)
  from scan_maps_none [OF this] assms(1) show ?thesis
    by (simp add: search_npc_location_def emit_def)
qed

lemma cache_get_set_failed:
  assumes "\<not> truthy (cache_get w t k)"
    and "write_oracle w (clock w) (get_cache_file t k) \<noteq> Persisted"
  shows "\<not> truthy (cache_get (cache_set w t k v) t k)"
    and "trace (cache_set w t k v) = trace w @ [Print LogCacheSaveError]"
  using assms
  by (auto simp: cache_get_def cache_set_def tick_def emit_def Let_def
      split: write_outcome.splits)

text \<open>
  Claim C2 says that on a cache miss \<open>search_npc_location\<close> scans the maps in ascending
  order and, at the first map \<open>m\<close> that holds the entity \<open>v\<close>, writes the record to the
  cache and returns \<open>m\<close>. The record is handed to \<open>CacheManager.set\<close>, which catches a
  failing write, so the record is written when the write persists only. As amended: on
  a cache miss, when the maps 1 to \<open>m - 1\<close> lack \<open>v\<close> and the first matching placement of
  map \<open>m\<close> (with \<open>1 \<le> m \<le> 412\<close>) is \<open>npc\<close> at \<open>(x, y)\<close>, \<open>search_npc_location\<close> loads the
  map files 1, 2, ..., \<open>m\<close> in this order and no other, hands the record
  \<open>{map_id: m, npc_vnum: v, x, y}\<close> to \<open>CacheManager.set\<close> under the type \<open>npc_locations\<close> and
  the key \<open>npc_location_v\<close>, and returns \<open>m\<close>. When that write persists, the record is what
  the cache holds under the key afterwards; when it fails, the failure is logged last
  and the cache still holds no usable entry under the key.
\<close>

theorem first_match_is_cached_and_returned:
  assumes miss: "\<not> truthy (cache_get w ''npc_locations'' (npc_cache_key v))"
    and range: "1 \<le> m" "m \<le> 412"
    and before: "list_all (map_lacks (files w) v) [1..m - 1]"
    and here: "npc_on_map (files w) v m = Inr (Some npc)"
    and xy: "subscript npc ''x'' = Inr x" "subscript npc ''y'' = Inr y"
    and nm: "get_map_name gd m = Inr nm"
  shows "search_npc_location w gd v =
           (cache_set
              (w\<lparr>trace := trace w @ Print (LogNpcSearch v) # scan_events (files w) [1..m - 1] @
                                      [LoadMapFile m, Print (LogNpcFound m nm)]\<rparr>)
              ''npc_locations'' (npc_cache_key v) (location_record m v x y),
            Inr (JInt m)) \<and>
         (write_oracle w (clock w) (get_cache_file ''npc_locations'' (npc_cache_key v)) = Persisted
            \<longrightarrow> cache_get (fst (search_npc_location w gd v)) ''npc_locations'' (npc_cache_key v) =
                  location_record m v x y) \<and>
         (write_oracle w (clock w) (get_cache_file ''npc_locations'' (npc_cache_key v)) \<noteq> Persisted
            \<longrightarrow> \<not> truthy (cache_get (fst (search_npc_location w gd v)) ''npc_locations''
                             (npc_cache_key v)) \<and>
                trace (fst (search_npc_location w gd v)) =
                  trace w @ Print (LogNpcSearch v) # scan_events (files w) [1..m - 1] @
                    [LoadMapFile m, Print (LogNpcFound m nm), Print LogCacheSaveError])"
proof -
  note eq = search_found [OF miss range before here xy nm]
  let ?w' = "w\<lparr>trace := trace w @ Print (LogNpcSearch v) # scan_events (files w) [1..m - 1] @
                                      [LoadMapFile m, Print (LogNpcFound m nm)]\<rparr>"
  have miss': "\<not> truthy (cache_get ?w' ''npc_locations'' (npc_cache_key v))"
    using miss by (simp add: cache_get_def)
  have "\<not> truthy (cache_get (fst (search_npc_location w gd v)) ''npc_locations''
                             (npc_cache_key v)) \<and>
                trace (fst (search_npc_location w gd v)) =
                  trace w @ Print (LogNpcSearch v) # scan_events (files w) [1..m - 1] @
                    [LoadMapFile m, Print (LogNpcFound m nm), Print LogCacheSaveError]"
    if f: "write_oracle w (clock w) (get_cache_file ''npc_locations'' (npc_cache_key v)) \<noteq>
           Persisted"
  proof -
    have f': "write_oracle ?w' (clock ?w') (get_cache_file ''npc_locations'' (npc_cache_key v)) \<noteq>
           Persisted"
      using f by simp
    show ?thesis
      unfolding eq fst_conv
      using cache_get_set_failed [OF miss' f'] by simp
  qed
  then show ?thesis
    by (simp add: eq cache_get_set_persisted)
qed

text \<open>
  Claim C4 says that for an entity on no map of the range \<open>search_npc_location\<close> returns
  absent and no cache entry exists afterwards. The cache is read first and never checked
  against the maps, so that holds on a cache miss only. As amended: when the cache has
  no usable entry for \<open>v\<close> and every map of 1..412 lacks \<open>v\<close>, the call loads every map
  file of the range, returns absent and changes no file, so that an entry exists
  afterwards only if one existed before; and a second call does the same scan again.
\<close>

theorem absent_entity_is_not_cached:
  assumes miss: "\<not> truthy (cache_get w ''npc_locations'' (npc_cache_key v))"
    and lacks: "list_all (map_lacks (files w) v) map_id_range"
  shows "search_npc_location w gd v =
           (w\<lparr>trace := trace w @ Print (LogNpcSearch v) # scan_events (files w) map_id_range @
                                   [Print (LogNpcNotFound v)]\<rparr>,
            Inr JNull) \<and>
         files (fst (search_npc_location w gd v)) = files w \<and>
         cache_exists (fst (search_npc_location w gd v)) ''npc_locations'' (npc_cache_key v) =
           cache_exists w ''npc_locations'' (npc_cache_key v) \<and>
         search_npc_location (fst (search_npc_location w gd v)) gd v =
           ((fst (search_npc_location w gd v))
              \<lparr>trace := trace (fst (search_npc_location w gd v)) @
                         Print (LogNpcSearch v) # scan_events (files w) map_id_range @
                         [Print (LogNpcNotFound v)]\<rparr>,
            Inr JNull) \<and>
         filter is_load (scan_events (files w) map_id_range) = map LoadMapFile map_id_range"
proof -
  note first = search_absent [OF miss lacks, of gd]
  let ?w' = "fst (search_npc_location w gd v)"
  have same: "files ?w' = files w" by (simp add: first)
  with miss lacks have "\<not> truthy (cache_get ?w' ''npc_locations'' (npc_cache_key v))"
    "list_all (map_lacks (files ?w') v) map_id_range"
    by (simp_all add: cache_get_def)
  from search_absent [OF this, of gd] same first show ?thesis
    by (simp add: cache_exists_def loads_of_scan)
qed

text \<open>
  Claim C3 says that once \<open>search_npc_location\<close> has returned \<open>m\<close> for \<open>v\<close>, every later
  call returns \<open>m\<close> without loading a map file. The write of the first call may fail,
  which \<open>CacheManager.set\<close> logs and swallows. As amended: when the first call was
  answered from the cache, or its write persisted, then every call made while the file
  of the key is what the first call left returns \<open>m\<close>, adding the log line of the cache
  hit to the trace and nothing else: the loader is not called.
\<close>

theorem located_entity_is_answered_from_cache:
  assumes first: "search_npc_location w gd v = (w', Inr (JInt m))"
    and ok: "truthy (cache_get w ''npc_locations'' (npc_cache_key v)) \<or>
             write_oracle w (clock w) (get_cache_file ''npc_locations'' (npc_cache_key v)) = Persisted"
    and kept: "files w2 (get_cache_file ''npc_locations'' (npc_cache_key v)) =
               files w' (get_cache_file ''npc_locations'' (npc_cache_key v))"
  shows "search_npc_location w2 gd v =
           (emit (Print (LogNpcCacheHit v (JInt m))) w2, Inr (JInt m)) \<and>
         filter is_load (trace (fst (search_npc_location w2 gd v))) = filter is_load (trace w2)"
proof -
  from first_call_leaves_entry [OF first ok] kept obtain c where
    "files w2 (get_cache_file ''npc_locations'' (npc_cache_key v)) = Some (Parsed c)"
    "truthy c" "subscript c ''map_id'' = Inr (JInt m)"
    by auto
  then have "search_npc_location w2 gd v =
           (emit (Print (LogNpcCacheHit v (JInt m))) w2, Inr (JInt m))"
    by (rule search_hit)
  then show ?thesis by (simp add: emit_def is_load_def)
qed


lemma digit_char_simps:
  "digit_char 0 = CHR ''0''" "digit_char (Suc 0) = CHR ''1''" "digit_char 1 = CHR ''1''"
  "digit_char 2 = CHR ''2''" "digit_char 3 = CHR ''3''" "digit_char 4 = CHR ''4''"
  "digit_char 5 = CHR ''5''" "digit_char 6 = CHR ''6''" "digit_char 7 = CHR ''7''"
  "digit_char 8 = CHR ''8''" "digit_char 9 = CHR ''9''"
  by code_simp+

lemma show_4013: "show_int 4013 = ''4013''"
  by (simp add: show_int_def show_nat.simps digit_char_simps)

lemma show_999: "show_int 999 = ''999''"
  by (simp add: show_int_def show_nat.simps digit_char_simps)

lemma show_20: "show_int 20 = ''20''"
  by (simp add: show_int_def show_nat.simps digit_char_simps)

lemma corpus_paths:
  "''data/maps/c_map_3.json'' = map_file_path 3"
  "''data/maps/c_map_5.json'' = map_file_path 5"
  "''data/maps/c_map_20.json'' = map_file_path 20"
  by (simp_all add: map_file_path_def path_defs show_int_def show_nat.simps digit_char_simps)

lemma corpus_lookup:
  "corpus_files (map_file_path m) =
     (if m = 20 then Some (Parsed (JObj [(''npcs'', JArr [npc_77, npc_4013])]))
      else if m = 5 then Some Unreadable
      else if m = 3 then Some (Parsed (JObj [(''npcs'', JArr [npc_77])]))
      else None)"
  unfolding corpus_files_def corpus_paths by simp

lemma corpus_lacks_999: "map_lacks corpus_files 999 m"
  by (simp add: map_lacks_def npc_on_map_def placements_def corpus_lookup npc_77_def
      npc_4013_def py_eq_int_def)

lemma corpus_lacks_4013: "m \<noteq> 20 \<Longrightarrow> map_lacks corpus_files 4013 m"
  by (simp add: map_lacks_def npc_on_map_def placements_def corpus_lookup npc_77_def
      npc_4013_def py_eq_int_def)

lemma corpus_has_4013: "npc_on_map corpus_files 4013 20 = Inr (Some npc_4013)"
  by (simp add: npc_on_map_def placements_def corpus_lookup npc_77_def
      npc_4013_def py_eq_int_def)

lemma corpus_no_cache: "corpus_files (get_cache_file t k) = None"
  by (simp add: corpus_files_def get_cache_file_def path_defs)

lemma stale_no_maps: "stale_cache_files (map_file_path m) = None"
  by (simp add: stale_cache_files_def map_file_path_def path_defs)

lemma key_4013: "get_cache_file ''npc_locations'' (npc_cache_key 4013) =
   ''data/cache/npc_locations/npc_location_4013.json''"
  by (simp add: get_cache_file_def npc_cache_key_def path_defs show_4013)

lemma map_20_name: "get_map_name init_game_data 20 = Inr (JStr ''Map 20'')"
  by (simp add: get_map_name_def init_game_data_def show_20)

subsection \<open>The scenario of the specification\<close>

lemma cache_set_persisted:
  "write_oracle w (clock w) (get_cache_file t k) = Persisted \<Longrightarrow>
   cache_set w t k v = w\<lparr>files := (files w)(get_cache_file t k \<mapsto> Parsed v), clock := Suc (clock w)\<rparr>"
  by (simp add: cache_set_def tick_def)

lemma cache_set_open_fails:
  "write_oracle w (clock w) (get_cache_file t k) = OpenFails \<Longrightarrow>
   cache_set w t k v = w\<lparr>clock := Suc (clock w), trace := trace w @ [Print LogCacheSaveError]\<rparr>"
  by (simp add: cache_set_def tick_def emit_def)

lemma loads_of_cache_set [simp]:
  "filter is_load (trace (cache_set w t k v)) = filter is_load (trace w)"
  by (simp add: cache_set_def tick_def emit_def is_load_def Let_def split: write_outcome.splits)

lemma quiet_world_simps [simp]:
  "files (quiet_world fs) = fs" "trace (quiet_world fs) = []" "clock (quiet_world fs) = 0"
  "write_oracle (quiet_world fs) = (\<lambda>n p. Persisted)"
  by (simp_all add: quiet_world_def)

lemma key_4013_name: "npc_cache_key 4013 = ''npc_location_4013''"
  by (simp add: npc_cache_key_def show_4013)

lemma key_999_name: "npc_cache_key 999 = ''npc_location_999''"
  by (simp add: npc_cache_key_def show_999)

lemma npc_4013_xy: "subscript npc_4013 ''x'' = Inr (JInt 45)" "subscript npc_4013 ''y'' = Inr (JInt 60)"
  by (simp_all add: npc_4013_def)

theorem first_match_is_cached_and_returned_witness:
  "snd (search_npc_location (quiet_world corpus_files) init_game_data 4013) = Inr (JInt 20) \<and>
   cache_get (fst (search_npc_location (quiet_world corpus_files) init_game_data 4013))
     ''npc_locations'' ''npc_location_4013'' =
     JObj [(''map_id'', JInt 20), (''npc_vnum'', JInt 4013), (''x'', JInt 45), (''y'', JInt 60)] \<and>
   filter is_load (trace (fst (search_npc_location (quiet_world corpus_files) init_game_data 4013))) =
     map LoadMapFile [1..19] @ [LoadMapFile 20] \<and>
   snd (search_npc_location (readonly_world corpus_files) init_game_data 4013) = Inr (JInt 20) \<and>
   \<not> truthy (cache_get (fst (search_npc_location (readonly_world corpus_files) init_game_data 4013))
               ''npc_locations'' ''npc_location_4013'') \<and>
   last (trace (fst (search_npc_location (readonly_world corpus_files) init_game_data 4013))) =
     Print LogCacheSaveError"
proof -
  let ?W = "quiet_world corpus_files"
  let ?R = "readonly_world corpus_files"
  have miss: "\<not> truthy (cache_get ?W ''npc_locations'' (npc_cache_key 4013))"
    by (simp add: cache_get_def quiet_world_def corpus_no_cache)
  have before: "list_all (map_lacks (files ?W) 4013) [1..20 - 1]"
    by (simp add: quiet_world_def list_all_iff corpus_lacks_4013)
  have here: "npc_on_map (files ?W) 4013 20 = Inr (Some npc_4013)"
    by (simp add: quiet_world_def corpus_has_4013)
  have p: "write_oracle ?W (clock ?W) (get_cache_file ''npc_locations'' (npc_cache_key 4013)) = Persisted"
    by simp
  note t = first_match_is_cached_and_returned [OF miss _ _ before here npc_4013_xy map_20_name]
  have eq: "search_npc_location ?W init_game_data 4013 =
           (cache_set
              (?W\<lparr>trace := trace ?W @ Print (LogNpcSearch 4013) #
                          scan_events (files ?W) [1..20 - 1] @
                          [LoadMapFile 20, Print (LogNpcFound 20 (JStr ''Map 20''))]\<rparr>)
              ''npc_locations'' (npc_cache_key 4013)
              (location_record 20 4013 (JInt 45) (JInt 60)),
            Inr (JInt 20))"
    by (rule t [THEN conjunct1]) simp_all
  have cg: "cache_get (fst (search_npc_location ?W init_game_data 4013)) ''npc_locations''
               (npc_cache_key 4013) = location_record 20 4013 (JInt 45) (JInt 60)"
    by (rule t [THEN conjunct2, THEN conjunct1, THEN mp, OF _ _ p]) simp_all
  have a: "snd (search_npc_location ?W init_game_data 4013) = Inr (JInt 20)"
    by (simp add: eq)
  have b: "filter is_load (trace (fst (search_npc_location ?W init_game_data 4013))) =
     map LoadMapFile [1..19] @ [LoadMapFile 20]"
    by (simp add: eq loads_of_scan is_load_def)
  have r: "files ?R = corpus_files" "write_oracle ?R = (\<lambda>n p. OpenFails)"
    by (simp_all add: readonly_world_def quiet_world_def)
  have miss_r: "\<not> truthy (cache_get ?R ''npc_locations'' (npc_cache_key 4013))"
    by (simp add: cache_get_def r corpus_no_cache)
  have before_r: "list_all (map_lacks (files ?R) 4013) [1..20 - 1]"
    by (simp add: r list_all_iff corpus_lacks_4013)
  have here_r: "npc_on_map (files ?R) 4013 20 = Inr (Some npc_4013)"
    by (simp add: r corpus_has_4013)
  have f: "write_oracle ?R (clock ?R) (get_cache_file ''npc_locations'' (npc_cache_key 4013)) \<noteq>
      Persisted"
    by (simp add: r)
  note u = first_match_is_cached_and_returned [OF miss_r _ _ before_r here_r npc_4013_xy map_20_name]
  have eq_r: "snd (search_npc_location ?R init_game_data 4013) = Inr (JInt 20)"
    by (subst u [THEN conjunct1]) simp_all
  have failed: "\<not> truthy (cache_get (fst (search_npc_location ?R init_game_data 4013))
                  ''npc_locations'' (npc_cache_key 4013)) \<and>
     trace (fst (search_npc_location ?R init_game_data 4013)) =
       trace ?R @ Print (LogNpcSearch 4013) # scan_events (files ?R) [1..20 - 1] @
         [LoadMapFile 20, Print (LogNpcFound 20 (JStr ''Map 20'')), Print LogCacheSaveError]"
    by (rule u [THEN conjunct2, THEN conjunct2, THEN mp, OF _ _ f]) simp_all
  have c: "\<not> truthy (cache_get (fst (search_npc_location ?R init_game_data 4013))
                  ''npc_locations'' ''npc_location_4013'')"
    using failed [THEN conjunct1] by (simp add: key_4013_name)
  have d: "last (trace (fst (search_npc_location ?R init_game_data 4013))) =
      Print LogCacheSaveError"
    unfolding failed [THEN conjunct2] by simp
  from a b cg have "snd (search_npc_location ?W init_game_data 4013) = Inr (JInt 20) \<and>
   cache_get (fst (search_npc_location ?W init_game_data 4013))
     ''npc_locations'' ''npc_location_4013'' =
     JObj [(''map_id'', JInt 20), (''npc_vnum'', JInt 4013), (''x'', JInt 45), (''y'', JInt 60)] \<and>
   filter is_load (trace (fst (search_npc_location ?W init_game_data 4013))) =
     map LoadMapFile [1..19] @ [LoadMapFile 20]"
    by (simp add: key_4013_name location_record_def)
  with eq_r c d show ?thesis
    by blast
qed

text \<open>Where no write can be opened, the call for entity 4013 scans the maps 1 to 20 and
  returns 20, and the cache has no entry under the key afterwards: the record was not
  written.\<close>

theorem first_match_is_cached_and_returned_counterexample:
  "\<not> truthy (cache_get (readonly_world corpus_files) ''npc_locations'' ''npc_location_4013'') \<and>
   snd (search_npc_location (readonly_world corpus_files) init_game_data 4013) = Inr (JInt 20) \<and>
   cache_get (fst (search_npc_location (readonly_world corpus_files) init_game_data 4013))
     ''npc_locations'' ''npc_location_4013'' = JNull \<and>
   cache_exists (fst (search_npc_location (readonly_world corpus_files) init_game_data 4013))
     ''npc_locations'' ''npc_location_4013'' = False"
proof -
  let ?R = "readonly_world corpus_files"
  have r: "files ?R = corpus_files" "write_oracle ?R = (\<lambda>n p. OpenFails)"
    by (simp_all add: readonly_world_def quiet_world_def)
  have miss: "\<not> truthy (cache_get ?R ''npc_locations'' (npc_cache_key 4013))"
    by (simp add: cache_get_def r corpus_no_cache)
  have before: "list_all (map_lacks (files ?R) 4013) [1..20 - 1]"
    by (simp add: r list_all_iff corpus_lacks_4013)
  have here: "npc_on_map (files ?R) 4013 20 = Inr (Some npc_4013)"
    by (simp add: r corpus_has_4013)
  have o: "write_oracle (?R\<lparr>trace := es\<rparr>) (clock (?R\<lparr>trace := es\<rparr>))
            (get_cache_file ''npc_locations'' (npc_cache_key 4013)) = OpenFails" for es
    by (simp add: r)
  have found: "search_npc_location ?R init_game_data 4013 =
      (?R\<lparr>clock := Suc (clock ?R),
          trace := trace ?R @ Print (LogNpcSearch 4013) # scan_events corpus_files [1..19] @
                  [LoadMapFile 20, Print (LogNpcFound 20 (JStr ''Map 20'')),
                   Print LogCacheSaveError]\<rparr>,
       Inr (JInt 20))"
    using search_found [OF miss _ _ before here npc_4013_xy map_20_name]
    by (simp add: cache_set_open_fails [OF o] r)
  have a: "cache_get (fst (search_npc_location ?R init_game_data 4013))
     ''npc_locations'' (npc_cache_key 4013) = JNull"
    unfolding found fst_conv by (simp add: cache_get_def r corpus_no_cache)
  have b: "cache_exists (fst (search_npc_location ?R init_game_data 4013))
     ''npc_locations'' (npc_cache_key 4013) = False"
    unfolding found fst_conv by (simp add: cache_exists_def r corpus_no_cache)
  from miss a b found show ?thesis
    by (simp add: key_4013_name)
qed

theorem absent_entity_is_not_cached_witness:
  "snd (search_npc_location (quiet_world corpus_files) init_game_data 999) = Inr JNull \<and>
   files (fst (search_npc_location (quiet_world corpus_files) init_game_data 999)) = corpus_files \<and>
   \<not> cache_exists (fst (search_npc_location (quiet_world corpus_files) init_game_data 999))
       ''npc_locations'' ''npc_location_999'' \<and>
   snd (search_npc_location
          (fst (search_npc_location (quiet_world corpus_files) init_game_data 999))
          init_game_data 999) = Inr JNull \<and>
   filter is_load
     (trace (fst (search_npc_location
          (fst (search_npc_location (quiet_world corpus_files) init_game_data 999))
          init_game_data 999))) = map LoadMapFile map_id_range @ map LoadMapFile map_id_range"
proof -
  let ?W = "quiet_world corpus_files"
  have miss: "\<not> truthy (cache_get ?W ''npc_locations'' (npc_cache_key 999))"
    by (simp add: cache_get_def quiet_world_def corpus_no_cache)
  have lacks: "list_all (map_lacks (files ?W) 999) map_id_range"
    by (simp add: quiet_world_def list_all_iff corpus_lacks_999)
  have ne: "\<not> cache_exists ?W ''npc_locations'' (npc_cache_key 999)"
    by (simp add: cache_exists_def quiet_world_def corpus_no_cache)
  let ?w' = "fst (search_npc_location ?W init_game_data 999)"
  let ?es = "Print (LogNpcSearch 999) # scan_events (files ?W) map_id_range @
             [Print (LogNpcNotFound 999)]"
  note t = absent_entity_is_not_cached [OF miss lacks, of init_game_data]
  note eq = t [THEN conjunct1]
  note fs = t [THEN conjunct2, THEN conjunct1]
  note ex = t [THEN conjunct2, THEN conjunct2, THEN conjunct1]
  note again = t [THEN conjunct2, THEN conjunct2, THEN conjunct2, THEN conjunct1]
  have a: "snd (search_npc_location ?W init_game_data 999) = Inr JNull"
    by (simp add: eq)
  have b: "snd (search_npc_location ?w' init_game_data 999) = Inr JNull"
    by (simp add: again)
  have t: "trace ?w' = ?es"
    by (simp add: eq)
  have c: "filter is_load (trace (fst (search_npc_location ?w' init_game_data 999))) =
           map LoadMapFile map_id_range @ map LoadMapFile map_id_range"
    by (simp add: again t loads_of_scan is_load_def)
  from a b c fs ex ne show ?thesis
    by (simp add: key_999_name)
qed

text \<open>With a cache entry left for entity 4013 and no map that places it, the call
  returns the cached map 7, and the entry is still there.\<close>

theorem absent_entity_is_not_cached_counterexample:
  "list_all (map_lacks (files (quiet_world stale_cache_files)) 4013) map_id_range \<and>
   snd (search_npc_location (quiet_world stale_cache_files) init_game_data 4013) = Inr (JInt 7) \<and>
   cache_exists (fst (search_npc_location (quiet_world stale_cache_files) init_game_data 4013))
     ''npc_locations'' (npc_cache_key 4013)"
proof -
  let ?W = "quiet_world stale_cache_files"
  have lacks: "list_all (map_lacks (files ?W) 4013) map_id_range"
    by (simp add: quiet_world_def list_all_iff map_lacks_def npc_on_map_def placements_def
        stale_no_maps)
  have "files ?W (get_cache_file ''npc_locations'' (npc_cache_key 4013)) =
        Some (Parsed (JObj [(''map_id'', JInt 7), (''npc_vnum'', JInt 4013),
                      (''x'', JInt 1), (''y'', JInt 1)]))"
    by (simp add: key_4013 quiet_world_def stale_cache_files_def)
  from search_hit [OF this, of "JInt 7" init_game_data] lacks show ?thesis
    by (simp add: cache_exists_def emit_def key_4013 quiet_world_def stale_cache_files_def)
qed

theorem located_entity_is_answered_from_cache_witness:
  "snd (search_npc_location
          (fst (search_npc_location (quiet_world corpus_files) init_game_data 4013))
          init_game_data 4013) = Inr (JInt 20) \<and>
   trace (fst (search_npc_location
          (fst (search_npc_location (quiet_world corpus_files) init_game_data 4013))
          init_game_data 4013)) =
     trace (fst (search_npc_location (quiet_world corpus_files) init_game_data 4013)) @
     [Print (LogNpcCacheHit 4013 (JInt 20))]"
proof -
  let ?W = "quiet_world corpus_files"
  let ?w' = "fst (search_npc_location ?W init_game_data 4013)"
  have miss: "\<not> truthy (cache_get ?W ''npc_locations'' (npc_cache_key 4013))"
    by (simp add: cache_get_def quiet_world_def corpus_no_cache)
  have before: "list_all (map_lacks (files ?W) 4013) [1..20 - 1]"
    by (simp add: quiet_world_def list_all_iff corpus_lacks_4013)
  have here: "npc_on_map (files ?W) 4013 20 = Inr (Some npc_4013)"
    by (simp add: quiet_world_def corpus_has_4013)
  have "snd (search_npc_location ?W init_game_data 4013) = Inr (JInt 20)"
    using search_found [OF miss _ _ before here npc_4013_xy map_20_name] by simp
  then have first: "search_npc_location ?W init_game_data 4013 = (?w', Inr (JInt 20))"
    by (metis prod.collapse)
  have ok: "truthy (cache_get ?W ''npc_locations'' (npc_cache_key 4013)) \<or>
     write_oracle ?W (clock ?W) (get_cache_file ''npc_locations'' (npc_cache_key 4013)) = Persisted"
    by (simp add: quiet_world_def)
  show ?thesis
    using located_entity_is_answered_from_cache [OF first ok refl]
    by (simp add: emit_def)
qed

text \<open>Where no write can be opened, the first call finds entity 4013 on map 20, and
  the second call returns 20 as well, but after loading the map files 1 to 20 again.\<close>

theorem located_entity_is_answered_from_cache_counterexample:
  "snd (search_npc_location (readonly_world corpus_files) init_game_data 4013) = Inr (JInt 20) \<and>
   snd (search_npc_location
          (fst (search_npc_location (readonly_world corpus_files) init_game_data 4013))
          init_game_data 4013) = Inr (JInt 20) \<and>
   filter is_load
     (drop (length (trace (fst (search_npc_location (readonly_world corpus_files)
                                  init_game_data 4013))))
        (trace (fst (search_npc_location
          (fst (search_npc_location (readonly_world corpus_files) init_game_data 4013))
          init_game_data 4013)))) =
     map LoadMapFile [1..19] @ [LoadMapFile 20]"
proof -
  let ?R = "readonly_world corpus_files"
  have found: "search_npc_location u init_game_data 4013 =
      (u\<lparr>clock := Suc (clock u),
         trace := trace u @ Print (LogNpcSearch 4013) # scan_events corpus_files [1..19] @
                  [LoadMapFile 20, Print (LogNpcFound 20 (JStr ''Map 20'')),
                   Print LogCacheSaveError]\<rparr>,
       Inr (JInt 20))"
    if u: "files u = corpus_files" "write_oracle u = (\<lambda>n p. OpenFails)" for u
  proof -
    have miss: "\<not> truthy (cache_get u ''npc_locations'' (npc_cache_key 4013))"
      by (simp add: cache_get_def u corpus_no_cache)
    have before: "list_all (map_lacks (files u) 4013) [1..20 - 1]"
      by (simp add: u list_all_iff corpus_lacks_4013)
    have here: "npc_on_map (files u) 4013 20 = Inr (Some npc_4013)"
      by (simp add: u corpus_has_4013)
    have o: "write_oracle (u\<lparr>trace := es\<rparr>) (clock (u\<lparr>trace := es\<rparr>))
              (get_cache_file ''npc_locations'' (npc_cache_key 4013)) = OpenFails" for es
      by (simp add: u)
    show ?thesis
      using search_found [OF miss _ _ before here npc_4013_xy map_20_name]
      by (simp add: cache_set_open_fails [OF o] u)
  qed
  have r: "files ?R = corpus_files" "write_oracle ?R = (\<lambda>n p. OpenFails)"
    by (simp_all add: readonly_world_def quiet_world_def)
  note first = found [OF r]
  let ?w1 = "fst (search_npc_location ?R init_game_data 4013)"
  have r1: "files ?w1 = corpus_files" "write_oracle ?w1 = (\<lambda>n p. OpenFails)"
    by (simp_all add: first r)
  note second = found [OF r1]
  show ?thesis
    by (simp add: second) (simp add: first loads_of_scan is_load_def)
qed

section \<open>The navigator\<close>

subsection \<open>Every step only adds to the trace\<close>

lemma extends_refl [simp]: "extends w w"
  by (simp add: extends_def)

lemma extends_trans: "extends a b \<Longrightarrow> extends b c \<Longrightarrow> extends a c"
  by (auto simp: extends_def)

lemma extends_emit [simp]: "extends w (emit e w)"
  by (simp add: extends_def emit_def)

lemma extends_emit_after: "extends w w' \<Longrightarrow> extends w (emit e w')"
  by (auto simp: extends_def emit_def)

lemma extends_cache_set: "extends w (cache_set w t k v)"
  by (simp add: extends_def cache_set_def emit_def tick_def Let_def split: write_outcome.splits)

lemma update_position_extends: "update_position w b = (w', b') \<Longrightarrow> extends w w'"
  by (auto simp: update_position_def extends_def emit_def tick_def Let_def split: poll_result.splits)

lemma walk_to_extends: "walk_to w b x y = (w', b') \<Longrightarrow> extends w w'"
  by (auto simp: walk_to_def update_position_def extends_def emit_def tick_def Let_def
      split: poll_result.splits if_splits)

lemma load_map_file_extends: "load_map_file w m = (w', d) \<Longrightarrow> extends w w'"
  by (auto simp: load_map_file_def extends_def emit_def Let_def split: option.splits content.splits)

lemma get_portal_extends: "get_portal_to_next_map w c n = (w', r) \<Longrightarrow> extends w w'"
  by (auto simp: get_portal_to_next_map_def dest: load_map_file_extends
      split: prod.splits if_splits sum.splits)

lemma get_pathfinding_first_event:
  "\<exists>e es. trace (fst (get_pathfinding w a b)) = trace w @ e # es \<and> is_lookup a b e"
  by (auto simp: get_pathfinding_def is_lookup_def emit_def tick_def cache_set_def Let_def
      split: http_result.splits option.splits sum.splits write_outcome.splits)

lemma walks_of_update_position:
  "filter is_walk (trace (fst (update_position w b))) = filter is_walk (trace w)"
  by (simp add: update_position_def is_walk_def emit_def tick_def Let_def split: poll_result.splits)

lemma walks_of_get_pathfinding:
  "filter is_walk (trace (fst (get_pathfinding w a b))) = filter is_walk (trace w)"
  by (auto simp: get_pathfinding_def is_walk_def emit_def tick_def cache_set_def Let_def
      split: http_result.splits option.splits sum.splits write_outcome.splits)

lemma travel_hops_desync_first:
  assumes "update_position w b = (w1, b1)" and "current_map_id b1 \<noteq> Some current"
  shows "travel_hops gd w b (current # next_map # rest) =
           ((emit (Print (LogDesync current (current_map_id b1))) w1, b1), Desync)"
  using assms by simp

subsection \<open>The loop over the hops\<close>

lemma travel_hops_step:
  assumes "update_position w b = (w1, b1)" and "current_map_id b1 = Some current"
    and "get_portal_to_next_map w1 current next_map = (w2, Inr (Some (x, y)))"
    and "get_map_name gd next_map = Inr n2"
    and "walk_to (emit (Print (LogPortal n2 x y)) w2) b1 x y = (w3, b3)"
  shows "travel_hops gd w b (current # next_map # rest) = travel_hops gd w3 b3 (next_map # rest)"
  using assms by simp

lemma travel_hops_cases:
  assumes "travel_hops gd w b (current # next_map # rest) = ((w', b'), out)"
  obtains
    (desync) w1 where "update_position w b = (w1, b')" "current_map_id b' \<noteq> Some current"
      "w' = emit (Print (LogDesync current (current_map_id b'))) w1" "out = Desync"
  | (stop) w1 b1 w2 where "update_position w b = (w1, b1)" "extends w1 w2" "extends w2 w'"
      "out \<noteq> Desync" "out \<noteq> Finished"
  | (step) w1 b1 w2 x y n2 w3 b3 where "update_position w b = (w1, b1)"
      "current_map_id b1 = Some current"
      "get_portal_to_next_map w1 current next_map = (w2, Inr (Some (x, y)))"
      "get_map_name gd next_map = Inr n2"
      "walk_to (emit (Print (LogPortal n2 x y)) w2) b1 x y = (w3, b3)"
      "travel_hops gd w3 b3 (next_map # rest) = ((w', b'), out)"
proof -
  obtain w1 b1 where up: "update_position w b = (w1, b1)" by force
  show thesis
  proof (cases "current_map_id b1 = Some current")
    case False
    with assms up show thesis by (intro desync [of w1]) auto
  next
    case True
    obtain w2 r where gp: "get_portal_to_next_map w1 current next_map = (w2, r)" by force
    note e12 = get_portal_extends [OF gp]
    show thesis
    proof (cases r)
      case (Inl e)
      with assms up True gp e12 show thesis by (intro stop [of w1 b1 w2]) auto
    next
      case (Inr p)
      show thesis
      proof (cases p)
        case None
        with assms up True gp e12 Inr show thesis
          by (intro stop [of w1 b1 w2]) (auto split: sum.splits)
      next
        case (Some xy)
        obtain x y where xy: "xy = (x, y)" by force
        show thesis
        proof (cases "get_map_name gd next_map")
          case (Inl e)
          with assms up True gp e12 Inr Some xy show thesis
            by (intro stop [of w1 b1 w2]) auto
        next
          case n2: (Inr n2)
          obtain w3 b3 where wk: "walk_to (emit (Print (LogPortal n2 x y)) w2) b1 x y = (w3, b3)"
            by force
          with assms up True gp Inr Some xy n2 show thesis
            by (intro step [of w1 b1 w2 x y n2 w3 b3]) auto
        qed
      qed
    qed
  qed
qed

lemma travel_hops_extends:
  "travel_hops gd w b route = ((w', b'), out) \<Longrightarrow> extends w w'"
proof (induction gd w b route arbitrary: w' b' out rule: travel_hops.induct)
  case (1 gd w b current next_map rest)
  from "1.prems" show ?case
  proof (cases rule: travel_hops_cases)
    case (desync w1)
    then show ?thesis
      by (auto intro: extends_emit_after update_position_extends)
  next
    case (stop w1 b1 w2)
    then show ?thesis
      by (blast intro: extends_trans update_position_extends)
  next
    case (step w1 b1 w2 x y n2 w3 b3)
    from "1.IH" [OF step(1) [symmetric] _ step(3) [symmetric] refl refl refl step(4)
        step(5) [symmetric] step(6)] step(2)
    have "extends w3 w'" by simp
    moreover have "extends w w3"
      using update_position_extends [OF step(1)] get_portal_extends [OF step(3)]
        walk_to_extends [OF step(5)]
      by (blast intro: extends_trans extends_emit_after)
    ultimately show ?thesis by (rule extends_trans [rotated])
  qed
qed simp_all

lemma travel_hops_desync:
  "travel_hops gd w b route = ((wd, bd), Desync) \<Longrightarrow>
   \<exists>u c1 w1 c. c \<in> set route \<and> extends w u \<and> update_position u c1 = (w1, bd) \<and>
              current_map_id bd \<noteq> Some c \<and>
              wd = emit (Print (LogDesync c (current_map_id bd))) w1"
proof (induction gd w b route arbitrary: wd bd rule: travel_hops.induct)
  case (1 gd w b current next_map rest)
  from "1.prems" show ?case
  proof (cases rule: travel_hops_cases)
    case (desync w1)
    then show ?thesis
      by (intro exI [of _ w] exI [of _ b] exI [of _ w1] exI [of _ current]) simp
  next
    case (stop w1 b1 w2)
    then show ?thesis by simp
  next
    case (step w1 b1 w2 x y n2 w3 b3)
    from "1.IH" [OF step(1) [symmetric] _ step(3) [symmetric] refl refl refl step(4)
        step(5) [symmetric] step(6)] step(2)
    obtain u c1 v1 c where r: "c \<in> set (next_map # rest)" "extends w3 u"
      "update_position u c1 = (v1, bd)" "current_map_id bd \<noteq> Some c"
      "wd = emit (Print (LogDesync c (current_map_id bd))) v1"
      by auto
    have "extends w w3"
      using update_position_extends [OF step(1)] get_portal_extends [OF step(3)]
        walk_to_extends [OF step(5)]
      by (blast intro: extends_trans extends_emit_after)
    with r(2) have "extends w u" by (blast intro: extends_trans)
    with r show ?thesis
      by (intro exI [of _ u] exI [of _ c1] exI [of _ v1] exI [of _ c]) auto
  qed
qed simp_all

subsection \<open>One invocation of the navigator\<close>

lemma travel_to_map_cases:
  assumes "travel_to_map (Suc fuel) gd w b target = Some ((w', b'), r)"
  obtains
    (there) w1 where "update_position w b = (w1, b')" "current_map_id b' = Some target"
      "extends w1 w'"
  | (noroute) w1 w2 pr where "update_position w b = (w1, b')"
      "current_map_id b' \<noteq> Some target"
      "get_pathfinding w1 (current_map_id b') target = (w2, pr)" "extends w2 w'"
      "r \<noteq> Inr True"
  | (hops) w1 b1 w2 path route msg w3 b3 out where "update_position w b = (w1, b1)"
      "current_map_id b1 \<noteq> Some target"
      "get_pathfinding w1 (current_map_id b1) target = (w2, Inr path)"
      "short_route path = Inr False" "route_of path = Some route"
      "route_log gd route = Inr msg"
      "travel_hops gd (emit (Print msg) w2) b1 route = ((w3, b3), out)"
      "out = Desync \<longrightarrow> travel_to_map fuel gd w3 b3 target = Some ((w', b'), r)"
      "out \<noteq> Desync \<longrightarrow> extends w3 w'"
proof -
  obtain w1 b1 where up: "update_position w b = (w1, b1)" by force
  show thesis
  proof (cases "current_map_id b1 = Some target")
    case True
    with assms up show thesis
      by (intro there [of w1]) (auto split: sum.splits)
  next
    case False
    obtain w2 pr where gp: "get_pathfinding w1 (current_map_id b1) target = (w2, pr)" by force
    show thesis
    proof (cases pr)
      case (Inl e)
      with assms up False gp show thesis by (intro noroute [of w1 w2 pr]) auto
    next
      case (Inr path)
      show thesis
      proof (cases "short_route path")
        case (Inl e)
        with assms up False gp Inr show thesis by (intro noroute [of w1 w2 pr]) auto
      next
        case sr: (Inr short)
        show thesis
        proof (cases short)
          case True
          with assms up False gp Inr sr show thesis
            by (intro noroute [of w1 w2 pr]) (auto split: sum.splits)
        next
          case long: False
          show thesis
          proof (cases "route_of path")
            case None
            with assms up False gp Inr sr long show thesis
              by (intro noroute [of w1 w2 pr]) auto
          next
            case (Some route)
            show thesis
            proof (cases "route_log gd route")
              case (Inl e)
              with assms up False gp Inr sr long Some show thesis
                by (intro noroute [of w1 w2 pr]) auto
            next
              case msg: (Inr msg)
              obtain w3 b3 out where th:
                "travel_hops gd (emit (Print msg) w2) b1 route = ((w3, b3), out)"
                by (metis prod.collapse)
              obtain w4 b4 where fin: "update_position w3 b3 = (w4, b4)" by force
              from assms up False gp Inr sr long Some msg th fin
              have d: "out = Desync \<longrightarrow> travel_to_map fuel gd w3 b3 target = Some ((w', b'), r)"
                by auto
              from assms up False gp Inr sr long Some msg th fin
              have e: "out \<noteq> Desync \<longrightarrow> extends w3 w'"
                using update_position_extends [OF fin]
                by (cases out) (auto split: sum.splits if_splits intro: extends_emit_after)
              from up False gp Inr sr long Some msg th d e show thesis
                by (intro hops [of w1 b1 w2 path route msg w3 b3 out]) auto
            qed
          qed
        qed
      qed
    qed
  qed
qed

lemma travel_to_map_extends:
  "travel_to_map fuel gd w b target = Some ((w', b'), r) \<Longrightarrow> extends w w'"
proof (induction fuel arbitrary: w b)
  case 0
  then show ?case by simp
next
  case (Suc fuel)
  from Suc.prems show ?case
  proof (cases rule: travel_to_map_cases)
    case (there w1)
    then show ?thesis
      by (blast intro: extends_trans update_position_extends)
  next
    case (noroute w1 w2 pr)
    have "extends w1 w2"
      using get_pathfinding_first_event [of w1 "current_map_id b'" target] noroute(3)
      by (auto simp: extends_def)
    with noroute show ?thesis
      by (blast intro: extends_trans update_position_extends)
  next
    case (hops w1 b1 w2 path route msg w3 b3 out)
    have "extends w1 w2"
      using get_pathfinding_first_event [of w1 "current_map_id b1" target] hops(3)
      by (auto simp: extends_def)
    moreover have "extends w2 w3"
      using travel_hops_extends [OF hops(7)] by (auto simp: extends_def emit_def)
    moreover have "extends w3 w'"
      using hops(8,9) Suc.IH by (cases "out = Desync") auto
    ultimately show ?thesis
      using update_position_extends [OF hops(1)] by (blast intro: extends_trans)
  qed
qed

lemma reinvocation_looks_up:
  assumes up: "update_position w b = (w1, b1)"
    and away: "current_map_id b1 \<noteq> Some target"
    and res: "travel_to_map (Suc fuel) gd w b target = Some ((w', b'), r)"
  shows "\<exists>e es. trace w' = trace w1 @ e # es \<and> is_lookup (current_map_id b1) target e"
proof -
  obtain e es0 where first:
    "trace (fst (get_pathfinding w1 (current_map_id b1) target)) = trace w1 @ e # es0"
    "is_lookup (current_map_id b1) target e"
    using get_pathfinding_first_event by blast
  have "extends (fst (get_pathfinding w1 (current_map_id b1) target)) w'"
    using res
  proof (cases rule: travel_to_map_cases)
    case (there w1')
    with up away show ?thesis by simp
  next
    case (noroute w1' w2 pr)
    with up show ?thesis by simp
  next
    case (hops w1' b1' w2 path route msg w3 b3 out)
    have "extends w2 w3"
      using travel_hops_extends [OF hops(7)] by (auto simp: extends_def emit_def)
    moreover have "extends w3 w'"
      using hops(8,9) travel_to_map_extends by (cases "out = Desync") auto
    ultimately show ?thesis
      using hops(1,3) up by (auto intro: extends_trans)
  qed
  with first show ?thesis
    by (auto simp: extends_def)
qed

subsection \<open>No route, and desynchronisation\<close>

lemma short_route_list: "length xs < 2 \<Longrightarrow> short_route (JArr xs) = Inr True"
  by (cases xs) (simp_all add: short_route_def)

text \<open>
  Claim C9: when the position refresh leaves the bot on a map other than the target and
  the route provider returns a list of fewer than two entries, \<open>travel_to_map\<close> returns
  failure (whatever the number of invocations allowed), having logged that no route was
  found, and the trace holds the walk commands it held before the call and no other.
\<close>

theorem no_route_fails_without_moving:
  assumes pos: "update_position w b = (w1, b1)"
    and away: "current_map_id b1 \<noteq> Some target_map"
    and route: "get_pathfinding w1 (current_map_id b1) target_map = (w2, Inr (JArr xs))"
    and short: "length xs < 2"
    and nm: "get_map_name gd target_map = Inr n"
  shows "travel_to_map (Suc fuel) gd w b target_map =
           Some ((emit (Print (LogNoRoute n)) w2, b1), Inr False) \<and>
         filter is_walk (trace (emit (Print (LogNoRoute n)) w2)) = filter is_walk (trace w)"
proof -
  have "filter is_walk (trace w2) = filter is_walk (trace w1)"
    using walks_of_get_pathfinding [of w1 "current_map_id b1" target_map] route by simp
  moreover have "filter is_walk (trace w1) = filter is_walk (trace w)"
    using walks_of_update_position [of w b] pos by simp
  ultimately show ?thesis
    using pos away route nm short_route_list [OF short]
    by (simp add: emit_def is_walk_def)
qed

lemma travel_to_map_away:
  assumes "update_position w b = (w1, b1)" and "current_map_id b1 \<noteq> Some target_map"
  shows "travel_to_map (Suc fuel) gd w b target_map =
           (case get_pathfinding w1 (current_map_id b1) target_map of
              (w2, Inl e) \<Rightarrow> Some ((w2, b1), Inl e)
            | (w2, Inr path) \<Rightarrow> follow_route fuel gd w2 b1 target_map path)"
  using assms by (simp add: follow_route_def split: prod.splits sum.splits)



theorem no_route_fails_without_moving_witness:
  "map_option snd (travel_to_map 1 init_game_data lost_world new_bot 2) = Some (Inr False) \<and>
   map_option (\<lambda>s. filter is_walk (trace (fst (fst s))))
     (travel_to_map 1 init_game_data lost_world new_bot 2) = Some [] \<and>
   map_option snd (travel_to_map 1 init_game_data one_map_world new_bot 2) = Some (Inr False) \<and>
   map_option (\<lambda>s. filter is_walk (trace (fst (fst s))))
     (travel_to_map 1 init_game_data one_map_world new_bot 2) = Some []"
proof -
  have nm: "get_map_name init_game_data 2 = Inr (JStr ''Map 2'')"
    by code_simp
  have run: "map_option snd (travel_to_map 1 init_game_data W new_bot 2) = Some (Inr False) \<and>
     map_option (\<lambda>s. filter is_walk (trace (fst (fst s))))
       (travel_to_map 1 init_game_data W new_bot 2) = Some []"
    if away: "current_map_id (snd (update_position W new_bot)) \<noteq> Some 2"
      and route: "snd (get_pathfinding (fst (update_position W new_bot))
                        (current_map_id (snd (update_position W new_bot))) 2) = Inr (JArr xs)"
      and short: "length xs < 2" and quiet: "trace W = []" for W xs
  proof -
    let ?w1 = "fst (update_position W new_bot)"
    let ?b1 = "snd (update_position W new_bot)"
    let ?w2 = "fst (get_pathfinding ?w1 (current_map_id ?b1) 2)"
    have pos: "update_position W new_bot = (?w1, ?b1)" by simp
    have r: "get_pathfinding ?w1 (current_map_id ?b1) 2 = (?w2, Inr (JArr xs))"
      using route by (metis prod.collapse)
    from no_route_fails_without_moving [OF pos away r short nm, of 0] quiet
    show ?thesis by simp
  qed
  have a1: "current_map_id (snd (update_position lost_world new_bot)) \<noteq> Some 2"
    by code_simp
  have r1: "snd (get_pathfinding (fst (update_position lost_world new_bot))
                  (current_map_id (snd (update_position lost_world new_bot))) 2) = Inr (JArr [])"
    by code_simp
  have a2: "current_map_id (snd (update_position one_map_world new_bot)) \<noteq> Some 2"
    by code_simp
  have r2: "snd (get_pathfinding (fst (update_position one_map_world new_bot))
                  (current_map_id (snd (update_position one_map_world new_bot))) 2) =
            Inr (JArr [JInt 1])"
    by code_simp
  have q: "trace lost_world = []" "trace one_map_world = []"
    by (simp_all add: lost_world_def one_map_world_def)
  from run [OF a1 r1 _ q(1)] run [OF a2 r2 _ q(2)] show ?thesis by simp
qed


end
